theory Spec2Isabelle
  imports Main "HOL-Library.AList" "HOL-Library.Multiset"
begin

section \<open>Python values read by \<open>analyse_attack_markdown.py\<close>\<close>

text \<open>
  A Python \<open>str\<close> is a sequence of Unicode code points, so it is modelled as a list of
  natural numbers (the table of \<open>clean_text\<close> holds code points up to U+2026, beyond
  the 8-bit \<open>char\<close> of HOL). \<open>ustr\<close> embeds an ASCII literal.
\<close>

type_synonym pystr = "nat list"

definition ustr :: "string \<Rightarrow> pystr" where
  "ustr s = map of_char s"

text \<open>
  The fields the script reads from a STIX object (\<open>id\<close>, \<open>type\<close>, \<open>name\<close>,
  \<open>description\<close>, \<open>modified\<close>) hold a JSON string or \<open>null\<close>; \<open>JNull\<close> is Python's
  \<open>None\<close>. An object is a \<open>dict\<close>: a finite map from keys to values.
\<close>

datatype jval = JNull | JStr pystr

type_synonym pyobj = "pystr \<rightharpoonup> jval"

text \<open>
  The exceptions that can leave the script: a missing dictionary key, the division of the
  percentage lines, a method call on \<open>None\<close>, \<open>sys.exit\<close>, and what \<open>open\<close> and
  \<open>json.load\<close> raise on an unreadable or malformed file.
\<close>

datatype pyerror =
    KeyError jval
  | ZeroDivisionError
  | AttributeError
  | SystemExit int
  | OSError
  | JSONDecodeError

text \<open>\<open>obj.get(key)\<close>: the value, or \<open>None\<close> when the key is absent.\<close>

definition dict_get :: "pyobj \<Rightarrow> pystr \<Rightarrow> jval" where
  "dict_get obj key = (case obj key of None \<Rightarrow> JNull | Some v \<Rightarrow> v)"

text \<open>\<open>obj.get(key, default)\<close>.\<close>

definition dict_get_default :: "pyobj \<Rightarrow> pystr \<Rightarrow> jval \<Rightarrow> jval" where
  "dict_get_default obj key d = (case obj key of None \<Rightarrow> d | Some v \<Rightarrow> v)"

text \<open>\<open>str(v)\<close>, as an f-string renders a value.\<close>

fun py_str :: "jval \<Rightarrow> pystr" where
  "py_str JNull = ustr ''None''"
| "py_str (JStr s) = s"

text \<open>Truthiness: \<open>None\<close> and the empty string are false.\<close>

fun truthy :: "jval \<Rightarrow> bool" where
  "truthy JNull = False"
| "truthy (JStr s) = (s \<noteq> [])"

section \<open>\<open>clean_text\<close>\<close>

text \<open>\<open>text.replace(old, new)\<close> for an \<open>old\<close> of one code point.\<close>

definition replace_char :: "nat \<Rightarrow> pystr \<Rightarrow> pystr \<Rightarrow> pystr" where
  "replace_char old new text = concat (map (\<lambda>c. if c = old then new else [c]) text)"

text \<open>The \<open>replacements\<close> dict of \<open>clean_text\<close>, in its insertion order.\<close>

definition replacements :: "(nat \<times> pystr) list" where
  "replacements =
    [(0x2019, [39]),
     (0x2018, [39]),
     (0x201C, [34]),
     (0x201D, [34]),
     (0x2013, ustr ''-''),
     (0x2014, ustr ''--''),
     (0x2026, ustr ''...''),
     (0x00E6, ustr ''ae''),
     (0x00C6, ustr ''AE''),
     (0x00FC, ustr ''u''),
     (0x00DC, ustr ''U''),
     (0x00F6, ustr ''o''),
     (0x00D6, ustr ''O''),
     (0x00E4, ustr ''a''),
     (0x00C4, ustr ''A''),
     (0x00DF, ustr ''ss''),
     (0x00F1, ustr ''n''),
     (0x00D1, ustr ''N'')]"

text \<open>The loop over \<open>replacements.items()\<close>.\<close>

fun replace_all :: "(nat \<times> pystr) list \<Rightarrow> pystr \<Rightarrow> pystr" where
  "replace_all [] text = text"
| "replace_all ((unicode_char, ascii_char) # rest) text =
     replace_all rest (replace_char unicode_char ascii_char text)"

text \<open>
  \<open>clean_text\<close> returns a false argument (\<open>None\<close>, the empty string) unchanged and
  otherwise applies the replacements one after the other.
\<close>

fun clean_text :: "jval \<Rightarrow> jval" where
  "clean_text JNull = JNull"
| "clean_text (JStr text) =
     (if text = [] then JStr text else JStr (replace_all replacements text))"

section \<open>Character classes and number formatting\<close>

text \<open>
  The environment of a run: \<open>uni_digit\<close> tells which code points beyond ASCII are decimal
  digits (Unicode category Nd, which \<open>\d\<close> accepts in a \<open>str\<close> pattern); \<open>set_order\<close>
  is the order in which the interpreter iterates over a \<open>set\<close> holding the given
  elements (it depends on the hashes, which are salted per process); \<open>path_exists\<close> is
  \<open>os.path.exists\<close>; \<open>load_objects\<close> is \<open>open\<close>, \<open>json.load\<close> and the lookup
  of \<open>'objects'\<close> in the loaded document.
\<close>

record env =
  uni_digit :: "nat \<Rightarrow> bool"
  set_order :: "jval list \<Rightarrow> jval list"
  path_exists :: "pystr \<Rightarrow> bool"
  load_objects :: "pystr \<Rightarrow> pyerror + pyobj list"

text \<open>A set iterates over each of its elements once.\<close>

definition iteration_ok :: "env \<Rightarrow> bool" where
  "iteration_ok e = (\<forall>xs. mset (set_order e xs) = mset xs)"

text \<open>The class \<open>\d\<close>.\<close>

definition py_digit :: "env \<Rightarrow> nat \<Rightarrow> bool" where
  "py_digit e c = (if c < 128 then 48 \<le> c \<and> c \<le> 57 else uni_digit e c)"

text \<open>The code points \<open>str.split()\<close> treats as whitespace (\<open>str.isspace\<close>).\<close>

definition is_space :: "nat \<Rightarrow> bool" where
  "is_space c =
     ((9 \<le> c \<and> c \<le> 13) \<or> (28 \<le> c \<and> c \<le> 32) \<or> c = 0x85 \<or> c = 0xA0 \<or> c = 0x1680
      \<or> (0x2000 \<le> c \<and> c \<le> 0x200A) \<or> c = 0x2028 \<or> c = 0x2029 \<or> c = 0x202F
      \<or> c = 0x205F \<or> c = 0x3000)"

text \<open>Decimal digits of a natural number, and of an integer with its sign.\<close>

fun digits_of :: "nat \<Rightarrow> pystr" where
  "digits_of n = (if n < 10 then [48 + n] else digits_of (n div 10) @ [48 + n mod 10])"

declare digits_of.simps [simp del]

text \<open>The thousands separators of the format \<open>,\<close>: a comma before every group of three
  digits, counted from the right.\<close>

fun commas :: "pystr \<Rightarrow> pystr" where
  "commas ds =
     (if length ds \<le> 3 then ds
      else commas (take (length ds - 3) ds) @ [44] @ drop (length ds - 3) ds)"

declare commas.simps [simp del]

text \<open>\<open>{n}\<close>, \<open>{n:,}\<close>, \<open>{n:+d}\<close> and \<open>{n:+,}\<close> for an integer \<open>n\<close>.\<close>

definition fmt_d :: "int \<Rightarrow> pystr" where
  "fmt_d n = (if n < 0 then [45] @ digits_of (nat (- n)) else digits_of (nat n))"

definition fmt_comma :: "int \<Rightarrow> pystr" where
  "fmt_comma n =
     (if n < 0 then [45] @ commas (digits_of (nat (- n))) else commas (digits_of (nat n)))"

definition fmt_plus_d :: "int \<Rightarrow> pystr" where
  "fmt_plus_d n = (if n < 0 then [45] @ digits_of (nat (- n)) else [43] @ digits_of (nat n))"

definition fmt_plus_comma :: "int \<Rightarrow> pystr" where
  "fmt_plus_comma n =
     (if n < 0 then [45] @ commas (digits_of (nat (- n)))
      else [43] @ commas (digits_of (nat n)))"

text \<open>\<open>a // b\<close> on integers.\<close>

definition py_floordiv :: "int \<Rightarrow> int \<Rightarrow> pyerror + int" where
  "py_floordiv a b = (if b = 0 then Inl ZeroDivisionError else Inr (a div b))"

section \<open>Regular expressions\<close>

text \<open>
  Both patterns of the script, \<open>(\d+\.\d+)\<close> and \<open>\[([^\]]+)\]\([^\)]+\)\<close>, are
  sequences of items, each a character class taken once or one-or-more times (\<open>+\<close>,
  greedy). \<open>match_items\<close> matches such a sequence at the start of a string the way
  the backtracking matcher of \<open>re\<close> does: a \<open>+\<close> first takes the longest run and gives
  characters back one at a time while the rest of the pattern fails. The result is the
  text each item matched and the rest of the string.
\<close>

datatype re_item = One "nat \<Rightarrow> bool" | Many1 "nat \<Rightarrow> bool"

fun greedy ::
  "(pystr \<Rightarrow> (pystr list \<times> pystr) option) \<Rightarrow> pystr \<Rightarrow> nat \<Rightarrow> (pystr list \<times> pystr) option"
where
  "greedy k s 0 = None"
| "greedy k s (Suc n) =
     (case k (drop (Suc n) s) of
        Some (gs, r) \<Rightarrow> Some (take (Suc n) s # gs, r)
      | None \<Rightarrow> greedy k s n)"

primrec match_items :: "re_item list \<Rightarrow> pystr \<Rightarrow> (pystr list \<times> pystr) option" where
  "match_items [] s = Some ([], s)"
| "match_items (it # its) s =
     (case it of
        One p \<Rightarrow>
          (case s of
             [] \<Rightarrow> None
           | c # cs \<Rightarrow>
               if p c then
                 (case match_items its cs of
                    None \<Rightarrow> None
                  | Some (gs, r) \<Rightarrow> Some ([c] # gs, r))
               else None)
      | Many1 p \<Rightarrow> greedy (match_items its) s (length (takeWhile p s)))"

text \<open>\<open>re.search\<close>: the match at the leftmost position that has one.\<close>

fun re_search :: "re_item list \<Rightarrow> pystr \<Rightarrow> pystr list option" where
  "re_search its [] = map_option fst (match_items its [])"
| "re_search its (c # cs) =
     (case match_items its (c # cs) of
        Some (gs, r) \<Rightarrow> Some gs
      | None \<Rightarrow> re_search its cs)"

text \<open>
  \<open>re.sub\<close>: every match, from left to right and without overlap, is replaced by
  \<open>repl\<close> of its items; after an empty match the next character is copied.
\<close>

fun re_sub :: "re_item list \<Rightarrow> (pystr list \<Rightarrow> pystr) \<Rightarrow> pystr \<Rightarrow> pystr" where
  "re_sub its repl [] = (case match_items its [] of Some (gs, r) \<Rightarrow> repl gs | None \<Rightarrow> [])"
| "re_sub its repl (c # cs) =
     (case match_items its (c # cs) of
        Some (gs, r) \<Rightarrow>
          if length r < length (c # cs) then repl gs @ re_sub its repl r
          else repl gs @ c # re_sub its repl cs
      | None \<Rightarrow> c # re_sub its repl cs)"

text \<open>The pattern \<open>(\d+\.\d+)\<close>.\<close>

definition version_re :: "env \<Rightarrow> re_item list" where
  "version_re e = [Many1 (py_digit e), One (\<lambda>c. c = 46), Many1 (py_digit e)]"

text \<open>The pattern \<open>\[([^\]]+)\]\([^\)]+\)\<close>; group 1 is the second item.\<close>

definition link_re :: "re_item list" where
  "link_re =
     [One (\<lambda>c. c = 91), Many1 (\<lambda>c. c \<noteq> 93), One (\<lambda>c. c = 93),
      One (\<lambda>c. c = 40), Many1 (\<lambda>c. c \<noteq> 41), One (\<lambda>c. c = 41)]"

text \<open>The replacement \<open>r'\1'\<close>.\<close>

definition group1 :: "pystr list \<Rightarrow> pystr" where
  "group1 gs = (case gs of _ # g # _ \<Rightarrow> g | _ \<Rightarrow> [])"

section \<open>\<open>extract_version\<close>\<close>

definition extract_version :: "env \<Rightarrow> pystr \<Rightarrow> pystr" where
  "extract_version e filename =
     (case re_search (version_re e) filename of
        Some gs \<Rightarrow> concat gs
      | None \<Rightarrow> ustr ''unknown'')"

section \<open>\<open>split\<close> and \<open>join\<close>\<close>

text \<open>\<open>s.split()\<close>: the maximal runs of non-whitespace; \<open>w\<close> is the word being read.\<close>

fun split_ws :: "pystr \<Rightarrow> pystr \<Rightarrow> pystr list" where
  "split_ws w [] = (if w = [] then [] else [w])"
| "split_ws w (c # cs) =
     (if is_space c then (if w = [] then split_ws [] cs else w # split_ws [] cs)
      else split_ws (w @ [c]) cs)"

definition py_split :: "pystr \<Rightarrow> pystr list" where
  "py_split s = split_ws [] s"

fun py_join :: "pystr \<Rightarrow> pystr list \<Rightarrow> pystr" where
  "py_join sep [] = []"
| "py_join sep [w] = w"
| "py_join sep (w # ws) = w @ sep @ py_join sep ws"

section \<open>Loading and indexing\<close>

text \<open>
  A Python \<open>dict\<close> whose insertion order matters is an association list with distinct
  keys: \<open>AList.update\<close> overwrites the value of a key that is present and appends a new
  key at the end, as an assignment \<open>d[k] = v\<close> does.

  \<open>{obj['id']: obj for obj in data['objects'] if 'id' in obj}\<close>
\<close>

definition index_by_id :: "pyobj list \<Rightarrow> (jval \<times> pyobj) list" where
  "index_by_id objects =
     foldl (\<lambda>d obj. case obj (ustr ''id'') of None \<Rightarrow> d | Some i \<Rightarrow> AList.update i obj d)
       [] objects"

text \<open>
  A Python \<open>set\<close> is a list without duplicates; the order of that list has no meaning
  for the program, which iterates over a set in the order \<open>set_order\<close> gives.
  \<open>set(objects.keys())\<close>, \<open>a - b\<close> and \<open>a & b\<close>:
\<close>

definition ids_of :: "pyobj list \<Rightarrow> jval list" where
  "ids_of objects = map fst (index_by_id objects)"

definition set_diff :: "jval list \<Rightarrow> jval list \<Rightarrow> jval list" where
  "set_diff a b = filter (\<lambda>x. x \<notin> set b) a"

definition set_inter :: "jval list \<Rightarrow> jval list \<Rightarrow> jval list" where
  "set_inter a b = filter (\<lambda>x. x \<in> set b) a"

definition set_add :: "jval \<Rightarrow> jval list \<Rightarrow> jval list" where
  "set_add x a = (if x \<in> set a then a else a @ [x])"

text \<open>Exceptions propagate: the rest runs only on a value.\<close>

definition then_do :: "pyerror + 'a \<Rightarrow> ('a \<Rightarrow> pyerror + 'b) \<Rightarrow> pyerror + 'b" where
  "then_do m f = (case m of Inl err \<Rightarrow> Inl err | Inr x \<Rightarrow> f x)"

text \<open>\<open>d[key]\<close> on the index: \<open>KeyError\<close> when the key is absent.\<close>

definition dict_item :: "(jval \<times> pyobj) list \<Rightarrow> jval \<Rightarrow> pyerror + pyobj" where
  "dict_item d key = (case map_of d key of None \<Rightarrow> Inl (KeyError key) | Some obj \<Rightarrow> Inr obj)"

text \<open>\<open>obj['type']\<close>.\<close>

definition obj_type :: "pyobj \<Rightarrow> pyerror + jval" where
  "obj_type obj =
     (case obj (ustr ''type'') of
        None \<Rightarrow> Inl (KeyError (JStr (ustr ''type'')))
      | Some t \<Rightarrow> Inr t)"

section \<open>The differ\<close>

text \<open>\<open>for obj in data['objects']: types[obj['type']] += 1\<close> on a \<open>defaultdict(int)\<close>.\<close>

definition dd_count :: "(jval \<rightharpoonup> int) \<Rightarrow> jval \<Rightarrow> int" where
  "dd_count types t = (case types t of None \<Rightarrow> 0 | Some n \<Rightarrow> n)"

fun count_types :: "(jval \<rightharpoonup> int) \<Rightarrow> pyobj list \<Rightarrow> pyerror + (jval \<rightharpoonup> int)" where
  "count_types types [] = Inr types"
| "count_types types (obj # objs) =
     then_do (obj_type obj) (\<lambda>t. count_types (types(t \<mapsto> dd_count types t + 1)) objs)"

definition new_ids :: "pyobj list \<Rightarrow> pyobj list \<Rightarrow> jval list" where
  "new_ids data16 data17 = set_diff (ids_of data17) (ids_of data16)"

definition removed_ids :: "pyobj list \<Rightarrow> pyobj list \<Rightarrow> jval list" where
  "removed_ids data16 data17 = set_diff (ids_of data16) (ids_of data17)"

definition common_ids :: "pyobj list \<Rightarrow> pyobj list \<Rightarrow> jval list" where
  "common_ids data16 data17 = set_inter (ids_of data16) (ids_of data17)"

text \<open>
  The loop \<open>for id_ in common_ids\<close> that fills \<open>modified_ids\<close>, over the identifiers in
  iteration order.
\<close>

fun modified_loop ::
  "(jval \<times> pyobj) list \<Rightarrow> (jval \<times> pyobj) list \<Rightarrow> jval list \<Rightarrow> jval list \<Rightarrow> pyerror + jval list"
where
  "modified_loop objects16 objects17 modified [] = Inr modified"
| "modified_loop objects16 objects17 modified (i # rest) =
     then_do (dict_item objects16 i) (\<lambda>obj16.
     then_do (dict_item objects17 i) (\<lambda>obj17.
       modified_loop objects16 objects17
         (if dict_get obj16 (ustr ''modified'') \<noteq> dict_get obj17 (ustr ''modified'')
          then set_add i modified else modified)
         rest))"

definition modified_ids :: "env \<Rightarrow> pyobj list \<Rightarrow> pyobj list \<Rightarrow> pyerror + jval list" where
  "modified_ids e data16 data17 =
     modified_loop (index_by_id data16) (index_by_id data17) []
       (set_order e (common_ids data16 data17))"

text \<open>
  The loops that fill \<open>new_by_type\<close> and \<open>removed_by_type\<close>, a \<open>defaultdict(list)\<close>:
  \<open>by_type[obj['type']].append(obj)\<close>.
\<close>

fun collect_by_type ::
  "(jval \<times> pyobj) list \<Rightarrow> (jval \<rightharpoonup> pyobj list) \<Rightarrow> jval list \<Rightarrow> pyerror + (jval \<rightharpoonup> pyobj list)"
where
  "collect_by_type objects by_type [] = Inr by_type"
| "collect_by_type objects by_type (i # rest) =
     then_do (dict_item objects i) (\<lambda>obj.
     then_do (obj_type obj) (\<lambda>t.
       collect_by_type objects
         (by_type(t \<mapsto> (case by_type t of None \<Rightarrow> [] | Some members \<Rightarrow> members) @ [obj]))
         rest))"

definition new_by_type :: "env \<Rightarrow> pyobj list \<Rightarrow> pyobj list \<Rightarrow> pyerror + (jval \<rightharpoonup> pyobj list)" where
  "new_by_type e data16 data17 =
     collect_by_type (index_by_id data17) Map.empty (set_order e (new_ids data16 data17))"

definition removed_by_type ::
  "env \<Rightarrow> pyobj list \<Rightarrow> pyobj list \<Rightarrow> pyerror + (jval \<rightharpoonup> pyobj list)" where
  "removed_by_type e data16 data17 =
     collect_by_type (index_by_id data16) Map.empty (set_order e (removed_ids data16 data17))"

text \<open>\<open>len(modified_ids)*100//len(common_ids)\<close>, the percentage of both summaries.\<close>

definition modified_percentage :: "jval list \<Rightarrow> jval list \<Rightarrow> pyerror + int" where
  "modified_percentage modified common =
     py_floordiv (int (length modified) * 100) (int (length common))"

section \<open>The reporter\<close>

text \<open>
  The description of one listed object. \<open>links\<close> tells whether the block removes
  markdown links: every block but the one of the attack patterns does.
  \<open>tidy_description\<close> is what follows \<open>clean_text\<close>: the newlines replaced, the links
  removed, the whitespace collapsed by \<open>' '.join(desc.split())\<close>.
\<close>

definition tidy_description :: "bool \<Rightarrow> pystr \<Rightarrow> pystr" where
  "tidy_description links cleaned =
     (let desc = replace_char 10 [32] cleaned;
          desc = (if links then re_sub link_re group1 desc else desc)
      in py_join [32] (py_split desc))"

definition describe :: "bool \<Rightarrow> pystr \<Rightarrow> pyobj \<Rightarrow> pyerror + pystr" where
  "describe links dflt obj =
     (case obj (ustr ''description'') of
        None \<Rightarrow> Inr dflt
      | Some d \<Rightarrow>
          if truthy d then
            (case clean_text d of
               JNull \<Rightarrow> Inl AttributeError
             | JStr cleaned \<Rightarrow> Inr (tidy_description links cleaned))
          else Inr dflt)"

text \<open>The numbered lines of one block, \<open>enumerate(group, 1)\<close>.\<close>

fun section_lines :: "bool \<Rightarrow> pystr \<Rightarrow> int \<Rightarrow> pyobj list \<Rightarrow> pyerror + pystr list" where
  "section_lines links dflt i [] = Inr []"
| "section_lines links dflt i (obj # objs) =
     (let name = clean_text (dict_get_default obj (ustr ''name'') (JStr (ustr ''N/A''))) in
      then_do (describe links dflt obj) (\<lambda>desc.
      then_do (section_lines links dflt (i + 1) objs) (\<lambda>lines.
        Inr (concat [fmt_d i, ustr ''. **'', py_str name, ustr ''** - '', desc] # lines))))"

text \<open>One block: nothing when the type has no new object.\<close>

definition section_block ::
  "(jval \<rightharpoonup> pyobj list) \<Rightarrow> pystr \<Rightarrow> pystr \<Rightarrow> bool \<Rightarrow> pystr \<Rightarrow> pyerror + pystr list" where
  "section_block by_type tag title links dflt =
     (case by_type (JStr tag) of
        None \<Rightarrow> Inr []
      | Some members \<Rightarrow>
          then_do (section_lines links dflt 1 members) (\<lambda>lines.
            Inr (concat [ustr ''### '', title, ustr '' ('', fmt_d (int (length members)),
                         ustr '' total)'', [10]] # lines @ [[]])))"

text \<open>A row of the overview table for one type.\<close>

definition type_row :: "pystr \<Rightarrow> pystr \<Rightarrow> (jval \<rightharpoonup> int) \<Rightarrow> (jval \<rightharpoonup> int) \<Rightarrow> pystr" where
  "type_row label tag types16 types17 =
     concat [ustr ''| **'', label, ustr ''** | '', fmt_d (dd_count types16 (JStr tag)),
             ustr '' | '', fmt_d (dd_count types17 (JStr tag)), ustr '' | '',
             fmt_plus_d (dd_count types17 (JStr tag) - dd_count types16 (JStr tag)),
             ustr '' |'']"

definition overview_lines ::
  "pystr \<Rightarrow> pystr \<Rightarrow> pyobj list \<Rightarrow> pyobj list \<Rightarrow> (jval \<rightharpoonup> int) \<Rightarrow> (jval \<rightharpoonup> int) \<Rightarrow> pystr list"
where
  "overview_lines version1 version2 data16 data17 types16 types17 =
     [concat [ustr ''# MITRE ATT&CK Version '', version1, ustr '' to '', version2,
              ustr '' Changes Summary'', [10]],
      ustr ''## Version Overview'' @ [10],
      concat [ustr ''| Component | Version '', version1, ustr '' | Version '', version2,
              ustr '' | Change |''],
      ustr ''|-----------|--------------|--------------|--------|'',
      ustr ''| **Release Date** | - | - | - |'',
      concat [ustr ''| **Total Objects** | '', fmt_comma (int (length data16)), ustr '' | '',
              fmt_comma (int (length data17)), ustr '' | '',
              fmt_plus_comma (int (length data17) - int (length data16)), ustr '' |''],
      type_row (ustr ''Attack Patterns'') (ustr ''attack-pattern'') types16 types17,
      type_row (ustr ''Intrusion Sets'') (ustr ''intrusion-set'') types16 types17,
      type_row (ustr ''Malware'') (ustr ''malware'') types16 types17,
      type_row (ustr ''Tools'') (ustr ''tool'') types16 types17,
      type_row (ustr ''Campaigns'') (ustr ''campaign'') types16 types17,
      []]"

definition statistics_lines :: "jval list \<Rightarrow> jval list \<Rightarrow> jval list \<Rightarrow> pystr list" where
  "statistics_lines new removed modified =
     [ustr ''## Major Changes Summary'' @ [10],
      ustr ''### Overall Statistics'' @ [10],
      ustr ''- **New Objects Added**: '' @ fmt_comma (int (length new)),
      concat [ustr ''- **Objects Removed**: '', fmt_comma (int (length removed)),
              ustr '' (primarily relationships)''],
      ustr ''- **Modified Objects**: '' @ fmt_comma (int (length modified)),
      concat [ustr ''- **Net Change**: '',
              fmt_plus_d (int (length new) - int (length removed)), ustr '' objects'', [10]]]"

text \<open>\<open>by_type.get('relationship', []).__len__()\<close>\<close>

definition relationship_count :: "(jval \<rightharpoonup> pyobj list) \<Rightarrow> int" where
  "relationship_count by_type =
     (case by_type (JStr (ustr ''relationship'')) of None \<Rightarrow> 0 | Some members \<Rightarrow> int (length members))"

text \<open>
  The body of \<open>analyse_attack_versions_markdown\<close> from the indexes to the last
  appended line: the list \<open>output\<close>, or the exception that ends the run.
\<close>

definition render_report ::
  "env \<Rightarrow> pystr \<Rightarrow> pystr \<Rightarrow> pyobj list \<Rightarrow> pyobj list \<Rightarrow> pyerror + pystr list" where
  "render_report e version1 version2 data16 data17 =
     then_do (count_types Map.empty data16) (\<lambda>types16.
     then_do (count_types Map.empty data17) (\<lambda>types17.
     then_do (modified_ids e data16 data17) (\<lambda>modified.
     then_do (new_by_type e data16 data17) (\<lambda>new_groups.
     then_do (removed_by_type e data16 data17) (\<lambda>removed_groups.
     then_do (section_block new_groups (ustr ''attack-pattern'') (ustr ''New Attack Techniques'')
                False (ustr ''Technique for adversary operations.'')) (\<lambda>techniques.
     then_do (section_block new_groups (ustr ''intrusion-set'') (ustr ''New Threat Actors'')
                True (ustr ''Advanced Persistent Threat group.'')) (\<lambda>actors.
     then_do (section_block new_groups (ustr ''malware'') (ustr ''New Malware Families'')
                True (ustr ''Malware family.'')) (\<lambda>malware.
     then_do (section_block new_groups (ustr ''tool'') (ustr ''New Tools'')
                True (ustr ''Tool for adversary operations.'')) (\<lambda>tools.
     then_do (section_block new_groups (ustr ''campaign'') (ustr ''New Campaigns'')
                True (ustr ''Campaign.'')) (\<lambda>campaigns.
     then_do (modified_percentage modified (common_ids data16 data17)) (\<lambda>percent.
     then_do (modified_percentage modified (common_ids data16 data17)) (\<lambda>rate.
       Inr (overview_lines version1 version2 data16 data17 types16 types17
            @ statistics_lines (new_ids data16 data17) (removed_ids data16 data17) modified
            @ techniques @ actors @ malware @ tools @ campaigns
            @ [ustr ''## Technical Changes Summary'' @ [10],
               ustr ''- **Relationships Removed**: ''
                 @ fmt_comma (relationship_count removed_groups),
               ustr ''- **Relationships Added**: '' @ fmt_comma (relationship_count new_groups),
               concat [ustr ''- **Objects Modified**: '', fmt_comma (int (length modified)),
                       ustr '' ('', fmt_d percent, ustr ''% of common objects)'', [10]],
               ustr ''## Version Migration Timeline'' @ [10],
               concat [ustr ''- **Version '', version1, ustr '' to '', version2, ustr ''**''],
               ustr ''- **Total Objects Changed**: ''
                 @ fmt_comma (int (length (new_ids data16 data17))
                              + int (length (removed_ids data16 data17))),
               concat [ustr ''- **Modification Rate**: '', fmt_d rate,
                       ustr ''% of common objects updated'']])))))))))))))"

text \<open>\<open>f'mitre_attack_changes_{version1}_to_{version2}.md'\<close>\<close>

definition output_filename :: "pystr \<Rightarrow> pystr \<Rightarrow> pystr" where
  "output_filename version1 version2 =
     concat [ustr ''mitre_attack_changes_'', version1, ustr ''_to_'', version2, ustr ''.md'']"

text \<open>
  A run gives the lines printed to the console and either the exception that ended it
  or the file it wrote (name and content).
\<close>

type_synonym run = "pystr list \<times> (pyerror + pystr \<times> pystr)"

definition analyse_attack_versions_markdown :: "env \<Rightarrow> pystr \<Rightarrow> pystr \<Rightarrow> run" where
  "analyse_attack_versions_markdown e file1 file2 =
     (let version1 = extract_version e file1;
          version2 = extract_version e file2;
          printed =
            [ustr ''Reading MITRE ATT&CK files...'',
             concat [ustr ''  From: '', file1, ustr '' (version '', version1, ustr '')''],
             concat [ustr ''  To: '', file2, ustr '' (version '', version2, ustr '')'']]
      in case then_do (load_objects e file1) (\<lambda>data16.
              then_do (load_objects e file2) (\<lambda>data17.
                render_report e version1 version2 data16 data17)) of
           Inl err \<Rightarrow> (printed, Inl err)
         | Inr output \<Rightarrow>
             (printed
                @ [ustr ''Markdown summary written to: '' @ output_filename version1 version2,
                   py_join [10] output],
              Inr (output_filename version1 version2, py_join [10] output)))"

section \<open>The command line\<close>

text \<open>\<open>argv\<close> is \<open>sys.argv\<close>: the script's name, then the arguments.\<close>

definition main :: "env \<Rightarrow> pystr list \<Rightarrow> run" where
  "main e argv =
     (case argv of
        [script, file1, file2] \<Rightarrow>
          if \<not> path_exists e file1 then
            ([concat [ustr ''Error: File '', [39], file1, [39], ustr '' not found'']],
             Inl (SystemExit 1))
          else if \<not> path_exists e file2 then
            ([concat [ustr ''Error: File '', [39], file2, [39], ustr '' not found'']],
             Inl (SystemExit 1))
          else analyse_attack_versions_markdown e file1 file2
      | _ \<Rightarrow>
          ([ustr ''Usage: python analyse_attack_markdown.py <from_version.json> <to_version.json>'',
            ustr ''Example: python analyse_attack_markdown.py enterprise-attack-16.1.json enterprise-attack-17.0.json''],
           Inl (SystemExit 1)))"

text \<open>
  The exit status of the process: the argument of \<open>sys.exit\<close>, 1 for any other
  uncaught exception, 0 when the script runs to its end.
\<close>

fun exit_status :: "run \<Rightarrow> int" where
  "exit_status (printed, Inl (SystemExit n)) = n"
| "exit_status (printed, Inl err) = 1"
| "exit_status (printed, Inr written) = 0"

section \<open>Notions used to state the properties\<close>

text \<open>The identifiers of a snapshot: the \<open>id\<close> of every object that has one.\<close>

definition snapshot_ids :: "pyobj list \<Rightarrow> jval set" where
  "snapshot_ids objects = set (List.map_filter (\<lambda>obj. obj (ustr ''id'')) objects)"

text \<open>One step of the comprehension that builds the index.\<close>

definition index_step :: "(jval \<times> pyobj) list \<Rightarrow> pyobj \<Rightarrow> (jval \<times> pyobj) list" where
  "index_step d obj = (case obj (ustr ''id'') of None \<Rightarrow> d | Some i \<Rightarrow> AList.update i obj d)"


text \<open>
  The \<open>modified\<close> markers of the two indexed objects of an identifier are unequal
  (\<open>!=\<close> on what \<open>.get('modified')\<close> returns).
\<close>

definition differs :: "(jval \<times> pyobj) list \<Rightarrow> (jval \<times> pyobj) list \<Rightarrow> jval \<Rightarrow> bool" where
  "differs objects16 objects17 i =
     (case (map_of objects16 i, map_of objects17 i) of
        (Some obj16, Some obj17) \<Rightarrow>
          dict_get obj16 (ustr ''modified'') \<noteq> dict_get obj17 (ustr ''modified'')
      | _ \<Rightarrow> False)"








text \<open>A word: not empty and without whitespace.\<close>

definition spaceless :: "pystr \<Rightarrow> bool" where
  "spaceless w = (w \<noteq> [] \<and> list_all (\<lambda>c. \<not> is_space c) w)"


text \<open>
  No match of the link pattern starts at a position inside \<open>p\<close> when \<open>rest\<close> follows
  it.
\<close>

definition no_match_before :: "pystr \<Rightarrow> pystr \<Rightarrow> bool" where
  "no_match_before p rest =
     list_all (\<lambda>k. match_items link_re (drop k p @ rest) = None) [0..<length p]"

text \<open>A dotted pair of digits: digits, a dot, digits.\<close>

definition dotted_pair :: "env \<Rightarrow> pystr \<Rightarrow> bool" where
  "dotted_pair e v =
     (\<exists>a b. v = a @ [46] @ b \<and> a \<noteq> [] \<and> b \<noteq> []
            \<and> list_all (py_digit e) a \<and> list_all (py_digit e) b)"

text \<open>The number of places at which \<open>sub\<close> occurs in a string.\<close>

fun occurrences :: "pystr \<Rightarrow> pystr \<Rightarrow> nat" where
  "occurrences sub [] = (if sub = [] then 1 else 0)"
| "occurrences sub (c # cs) =
     (if take (length sub) (c # cs) = sub then 1 else 0) + occurrences sub cs"


section \<open>Example snapshots\<close>

text \<open>An object with an identifier, a type and a \<open>modified\<close> marker; one without the marker.\<close>

definition stix_object :: "string \<Rightarrow> string \<Rightarrow> string \<Rightarrow> pyobj" where
  "stix_object i t m =
     [ustr ''id'' \<mapsto> JStr (ustr i), ustr ''type'' \<mapsto> JStr (ustr t),
      ustr ''modified'' \<mapsto> JStr (ustr m)]"

definition unmarked_object :: "string \<Rightarrow> string \<Rightarrow> pyobj" where
  "unmarked_object i t = [ustr ''id'' \<mapsto> JStr (ustr i), ustr ''type'' \<mapsto> JStr (ustr t)]"

text \<open>The two snapshots of the specification's example.\<close>

definition from_snapshot :: "pyobj list" where
  "from_snapshot = [stix_object ''1'' ''malware'' ''t0'', stix_object ''2'' ''tool'' ''t0'']"

definition to_snapshot :: "pyobj list" where
  "to_snapshot = [stix_object ''1'' ''malware'' ''t1'', stix_object ''3'' ''malware'' ''t0'']"

text \<open>
  An environment with ASCII digits only in which both files exist and hold the given
  snapshots, and sets iterate in the given order.
\<close>

definition example_env :: "(jval list \<Rightarrow> jval list) \<Rightarrow> pyobj list \<Rightarrow> pyobj list \<Rightarrow> env" where
  "example_env order data16 data17 =
     \<lparr>uni_digit = (\<lambda>c. False), set_order = order, path_exists = (\<lambda>path. True),
      load_objects = (\<lambda>path. if path = ustr ''enterprise-attack-16.1.json'' then Inr data16
                             else Inr data17)\<rparr>"

text \<open>An object without a \<open>type\<close>, and one without an \<open>id\<close>.\<close>

definition untyped_object :: "string \<Rightarrow> pyobj" where
  "untyped_object i = [ustr ''id'' \<mapsto> JStr (ustr i)]"

definition anonymous_object :: "string \<Rightarrow> pyobj" where
  "anonymous_object t =
     [ustr ''type'' \<mapsto> JStr (ustr t), ustr ''modified'' \<mapsto> JStr (ustr ''t0'')]"

text \<open>An environment in which no path exists.\<close>

definition empty_disk_env :: env where
  "empty_disk_env =
     \<lparr>uni_digit = (\<lambda>c. False), set_order = id, path_exists = (\<lambda>path. False),
      load_objects = (\<lambda>path. Inl OSError)\<rparr>"



text \<open>
  An object with a name and a description, and a "to" snapshot that adds one such object
  of each listed type to the single object of the "from" snapshot.
\<close>

definition described_object :: "string \<Rightarrow> string \<Rightarrow> string \<Rightarrow> string \<Rightarrow> pyobj" where
  "described_object i t n d =
     [ustr ''id'' \<mapsto> JStr (ustr i), ustr ''type'' \<mapsto> JStr (ustr t),
      ustr ''name'' \<mapsto> JStr (ustr n), ustr ''description'' \<mapsto> JStr (ustr d)]"

definition linked_snapshot :: "pyobj list" where
  "linked_snapshot =
     [stix_object ''1'' ''malware'' ''t0'',
      described_object ''2'' ''attack-pattern'' ''T'' ''See [here](http://x) for more'',
      described_object ''3'' ''intrusion-set'' ''G'' ''See [here](http://x) for more'',
      described_object ''4'' ''malware'' ''S'' ''See [here](http://x) for more'',
      described_object ''5'' ''tool'' ''U'' ''See [here](http://x) for more'',
      described_object ''6'' ''campaign'' ''C'' ''See [here](http://x) for more'']"

text \<open>The numbered lines of a report.\<close>

definition numbered_lines :: "pyerror + pystr list \<Rightarrow> pystr list" where
  "numbered_lines r =
     (case r of Inl err \<Rightarrow> [] | Inr output \<Rightarrow> filter (\<lambda>l. take 3 l = ustr ''1. '') output)"

section \<open>Properties of \<open>clean_text\<close>\<close>

lemma set_replace_char: "set (replace_char u a t) \<subseteq> (set t - {u}) \<union> set a"
  by (induction t) (auto simp: replace_char_def)

lemma replace_char_absent: "u \<notin> set t \<Longrightarrow> replace_char u a t = t"
  by (induction t) (auto simp: replace_char_def)

text \<open>A string without any key of the table is left as it is.\<close>

lemma replace_all_absent: "set t \<inter> fst ` set R = {} \<Longrightarrow> replace_all R t = t"
proof (induction R arbitrary: t)
  case Nil
  then show ?case by simp
next
  case (Cons p R)
  obtain u a where p: "p = (u, a)" by (cases p)
  from Cons.prems p have "u \<notin> set t" by auto
  then have "replace_char u a t = t" by (rule replace_char_absent)
  moreover from Cons.prems have "set t \<inter> fst ` set R = {}" by auto
  ultimately show ?case using Cons.IH [of t] p by simp
qed

text \<open>
  When no replacement text contains a code point of \<open>K\<close>, a pass removes from the
  string every key of the table that lies in \<open>K\<close> and brings in no code point of \<open>K\<close>.
\<close>

lemma replace_all_removes:
  assumes "\<forall>(u, a) \<in> set R. set a \<inter> K = {}"
  shows "set (replace_all R t) \<inter> K \<subseteq> (set t \<inter> K) - fst ` set R"
  using assms
proof (induction R arbitrary: t)
  case Nil
  then show ?case by simp
next
  case (Cons p R)
  obtain u a where p: "p = (u, a)" by (cases p)
  from Cons.prems p have a: "set a \<inter> K = {}" by auto
  from Cons.prems have R: "\<forall>(u, a) \<in> set R. set a \<inter> K = {}" by auto
  have step: "set (replace_char u a t) \<inter> K \<subseteq> (set t \<inter> K) - {u}"
    using set_replace_char [of u a t] a by auto
  show ?case using Cons.IH [OF R, of "replace_char u a t"] step p by auto
qed

lemma replacements_ascii:
  "\<forall>(u, a) \<in> set replacements. set a \<inter> fst ` set replacements = {}"
  by (simp add: replacements_def ustr_def)

lemma replace_all_replacements_twice:
  "replace_all replacements (replace_all replacements t) = replace_all replacements t"
proof -
  have "set (replace_all replacements t) \<inter> fst ` set replacements = {}"
    using replace_all_removes [OF replacements_ascii, of t] by auto
  then show ?thesis by (rule replace_all_absent)
qed

text \<open>
  Claim C8: \<open>clean_text\<close> is idempotent. For every argument it accepts (a string or
  \<open>None\<close>), cleaning the cleaned value gives the cleaned value again.
\<close>

theorem clean_text_idempotent: "clean_text (clean_text v) = clean_text v"
proof (cases v)
  case JNull
  then show ?thesis by simp
next
  case (JStr s)
  then show ?thesis
    using replace_all_replacements_twice [of s] by simp
qed

section \<open>The index and the identifier sets\<close>

lemma index_by_id_foldl: "index_by_id objects = foldl index_step [] objects"
  by (simp add: index_by_id_def index_step_def [abs_def])

lemma index_step_keys:
  "fst ` set (index_step d obj) = fst ` set d \<union> set_option (obj (ustr ''id''))"
  by (auto simp: index_step_def dom_update split: option.splits)

lemma foldl_index_keys:
  "fst ` set (foldl index_step d objects) = fst ` set d \<union> snapshot_ids objects"
proof (induction objects arbitrary: d)
  case Nil
  then show ?case by (simp add: snapshot_ids_def map_filter_simps)
next
  case (Cons obj objects)
  have "snapshot_ids (obj # objects) = set_option (obj (ustr ''id'')) \<union> snapshot_ids objects"
    by (auto simp: snapshot_ids_def map_filter_simps split: option.splits)
  then show ?case using Cons.IH [of "index_step d obj"] by (auto simp: index_step_keys)
qed

lemma set_ids_of: "set (ids_of objects) = snapshot_ids objects"
  using foldl_index_keys [of "[]" objects] by (simp add: ids_of_def index_by_id_foldl)







text \<open>
  Claim C2: for every pair of snapshots, \<open>added\<close> and \<open>removed\<close> are disjoint, \<open>added\<close>
  together with \<open>common\<close> is the set of identifiers of the "to" snapshot, and
  \<open>removed\<close> together with \<open>common\<close> is the set of identifiers of the "from" snapshot.
\<close>

theorem differ_identifier_sets:
  "set (new_ids data16 data17) \<inter> set (removed_ids data16 data17) = {}
   \<and> set (new_ids data16 data17) \<union> set (common_ids data16 data17) = snapshot_ids data17
   \<and> set (removed_ids data16 data17) \<union> set (common_ids data16 data17) = snapshot_ids data16"
  by (auto simp: new_ids_def removed_ids_def common_ids_def set_diff_def set_inter_def set_ids_of)

section \<open>Modified objects\<close>

lemma set_set_add: "set (set_add x a) = insert x (set a)"
  by (auto simp: set_add_def)

lemma modified_loop_result:
  assumes "\<forall>i \<in> set ids. map_of objects16 i \<noteq> None \<and> map_of objects17 i \<noteq> None"
  shows "\<exists>m. modified_loop objects16 objects17 acc ids = Inr m
           \<and> set m = set acc \<union> {i \<in> set ids. differs objects16 objects17 i}"
  using assms
proof (induction ids arbitrary: acc)
  case Nil
  then show ?case by simp
next
  case (Cons i ids)
  from Cons.prems obtain a b where ab: "map_of objects16 i = Some a" "map_of objects17 i = Some b"
    by auto
  from Cons.prems have rest: "\<forall>i \<in> set ids. map_of objects16 i \<noteq> None \<and> map_of objects17 i \<noteq> None"
    by simp
  let ?acc = "if dict_get a (ustr ''modified'') \<noteq> dict_get b (ustr ''modified'')
              then set_add i acc else acc"
  from Cons.IH [OF rest, of ?acc] obtain m where
    m: "modified_loop objects16 objects17 ?acc ids = Inr m"
       "set m = set ?acc \<union> {i \<in> set ids. differs objects16 objects17 i}" by blast
  have "modified_loop objects16 objects17 acc (i # ids) = Inr m"
    using m(1) ab by (simp add: then_do_def dict_item_def)
  moreover have "set m = set acc \<union> {j \<in> set (i # ids). differs objects16 objects17 j}"
    using m(2) ab by (auto simp: set_set_add differs_def)
  ultimately show ?case by blast
qed

lemma common_ids_indexed:
  assumes "i \<in> set (common_ids data16 data17)"
  shows "map_of (index_by_id data16) i \<noteq> None \<and> map_of (index_by_id data17) i \<noteq> None"
proof -
  from assms have "i \<in> fst ` set (index_by_id data16)" "i \<in> fst ` set (index_by_id data17)"
    by (auto simp: common_ids_def set_inter_def ids_of_def)
  then show ?thesis by (simp add: map_of_eq_None_iff)
qed

lemma iteration_ok_set: "iteration_ok e \<Longrightarrow> set (set_order e xs) = set xs"
  unfolding iteration_ok_def by (metis set_mset_mset)

lemma modified_ids_result:
  assumes "iteration_ok e"
  shows "\<exists>m. modified_ids e data16 data17 = Inr m
           \<and> set m = {i \<in> set (common_ids data16 data17).
                        differs (index_by_id data16) (index_by_id data17) i}"
proof -
  have "\<forall>i \<in> set (set_order e (common_ids data16 data17)).
          map_of (index_by_id data16) i \<noteq> None \<and> map_of (index_by_id data17) i \<noteq> None"
    using common_ids_indexed iteration_ok_set [OF assms] by blast
  from modified_loop_result [OF this, of "[]"] show ?thesis
    using iteration_ok_set [OF assms] by (simp add: modified_ids_def)
qed


lemma iteration_ok_id: "iteration_ok (example_env id a b)"
  by (simp add: iteration_ok_def example_env_def)



text \<open>
  Claim C5 as stated fails: an identifier whose two records both lack the \<open>modified\<close>
  field is in \<open>common\<close> and is not classified as modified, since \<open>.get\<close> gives \<open>None\<close>
  on both sides.
\<close>

theorem absent_in_both_counterexample:
  "JStr (ustr ''1'') \<in> set (common_ids [unmarked_object ''1'' ''tool''] [unmarked_object ''1'' ''tool''])
   \<and> unmarked_object ''1'' ''tool'' (ustr ''modified'') = None
   \<and> modified_ids (example_env id [] []) [unmarked_object ''1'' ''tool''] [unmarked_object ''1'' ''tool'']
       = Inr []"
  by (simp add: common_ids_def set_inter_def ids_of_def index_by_id_def unmarked_object_def
      modified_ids_def example_env_def then_do_def dict_item_def dict_get_def ustr_def)

text \<open>
  Claim C5, amended: for an identifier of \<open>common\<close> whose record lacks the \<open>modified\<close>
  field in at least one snapshot, the absent marker reads as \<open>None\<close>, and the identifier
  is classified as modified exactly when one of the two markers is a value other than
  \<open>None\<close>; with the marker absent from both records it is not.
\<close>

theorem absent_marker_reads_as_none:
  assumes "iteration_ok e"
    and "i \<in> set (common_ids data16 data17)"
    and "map_of (index_by_id data16) i = Some obj16"
    and "map_of (index_by_id data17) i = Some obj17"
    and "obj16 (ustr ''modified'') = None \<or> obj17 (ustr ''modified'') = None"
  shows "\<exists>m. modified_ids e data16 data17 = Inr m
           \<and> (i \<in> set m \<longleftrightarrow>
                (dict_get obj16 (ustr ''modified'') \<noteq> JNull
                 \<or> dict_get obj17 (ustr ''modified'') \<noteq> JNull))"
proof -
  from modified_ids_result [OF assms(1), of data16 data17] obtain m where
    m: "modified_ids e data16 data17 = Inr m"
       "set m = {i \<in> set (common_ids data16 data17).
                  differs (index_by_id data16) (index_by_id data17) i}" by blast
  have "i \<in> set m \<longleftrightarrow>
          dict_get obj16 (ustr ''modified'') \<noteq> dict_get obj17 (ustr ''modified'')"
    using m(2) assms(2-4) by (simp add: differs_def)
  moreover have "dict_get obj16 (ustr ''modified'') = JNull
                 \<or> dict_get obj17 (ustr ''modified'') = JNull"
    using assms(5) by (auto simp: dict_get_def)
  ultimately show ?thesis using m(1) by auto
qed

theorem absent_marker_reads_as_none_witness:
  "iteration_ok (example_env id [] [])
   \<and> JStr (ustr ''1'') \<in> set (common_ids [stix_object ''1'' ''tool'' ''t0''] [unmarked_object ''1'' ''tool''])
   \<and> map_of (index_by_id [stix_object ''1'' ''tool'' ''t0'']) (JStr (ustr ''1''))
       = Some (stix_object ''1'' ''tool'' ''t0'')
   \<and> map_of (index_by_id [unmarked_object ''1'' ''tool'']) (JStr (ustr ''1''))
       = Some (unmarked_object ''1'' ''tool'')
   \<and> unmarked_object ''1'' ''tool'' (ustr ''modified'') = None
   \<and> (\<exists>m. modified_ids (example_env id [] []) [stix_object ''1'' ''tool'' ''t0'']
              [unmarked_object ''1'' ''tool''] = Inr m
          \<and> JStr (ustr ''1'') \<in> set m)"
proof -
  have h1: "iteration_ok (example_env id [] [])" by (rule iteration_ok_id)
  have h2: "JStr (ustr ''1'') \<in> set (common_ids [stix_object ''1'' ''tool'' ''t0''] [unmarked_object ''1'' ''tool''])"
    by (simp add: common_ids_def set_inter_def ids_of_def index_by_id_def unmarked_object_def
        stix_object_def ustr_def)
  have h3: "map_of (index_by_id [stix_object ''1'' ''tool'' ''t0'']) (JStr (ustr ''1''))
       = Some (stix_object ''1'' ''tool'' ''t0'')"
    by (simp add: index_by_id_def stix_object_def ustr_def)
  have h4: "map_of (index_by_id [unmarked_object ''1'' ''tool'']) (JStr (ustr ''1''))
       = Some (unmarked_object ''1'' ''tool'')"
    by (simp add: index_by_id_def unmarked_object_def ustr_def)
  have h5: "unmarked_object ''1'' ''tool'' (ustr ''modified'') = None"
    by (simp add: unmarked_object_def ustr_def)
  have "dict_get (stix_object ''1'' ''tool'' ''t0'') (ustr ''modified'') \<noteq> JNull"
    by (simp add: dict_get_def stix_object_def ustr_def)
  with absent_marker_reads_as_none [OF h1 h2 h3 h4 disjI2 [OF h5]] h1 h2 h3 h4 h5
  show ?thesis by blast
qed

section \<open>The percentage of modified objects\<close>

lemma then_do_Inl [simp]: "then_do (Inl err) f = Inl err"
  by (simp add: then_do_def)

lemma then_do_Inr [simp]: "then_do (Inr x) f = f x"
  by (simp add: then_do_def)

text \<open>The defining equations that evaluate a run on given snapshots.\<close>

lemmas run_defs =
  render_report_def new_by_type_def removed_by_type_def modified_ids_def new_ids_def
  removed_ids_def common_ids_def set_diff_def set_inter_def set_add_def ids_of_def
  index_by_id_def dict_item_def obj_type_def dd_count_def dict_get_def dict_get_default_def
  modified_percentage_def py_floordiv_def section_block_def describe_def tidy_description_def
  type_row_def overview_lines_def statistics_lines_def relationship_count_def
  fmt_d_def fmt_comma_def fmt_plus_d_def fmt_plus_comma_def digits_of.simps commas.simps
  replacements_def replace_char_def link_re_def group1_def py_split_def is_space_def
  example_env_def ustr_def

lemma then_do_raises: "(\<And>x. \<exists>err. f x = Inl err) \<Longrightarrow> \<exists>err. then_do m f = Inl err"
  by (cases m) simp_all

lemma render_report_empty_common:
  assumes "common_ids data16 data17 = []"
  shows "\<exists>err. render_report e version1 version2 data16 data17 = Inl err"
proof -
  have "modified_percentage modified (common_ids data16 data17) = Inl ZeroDivisionError"
    for modified
    by (simp add: assms modified_percentage_def py_floordiv_def)
  then show ?thesis
    unfolding render_report_def by (simp only: then_do_Inl) (intro then_do_raises, blast)
qed

text \<open>
  Claim C1 does not hold of the code: the percentage is the plain quotient
  \<open>len(modified_ids)*100//len(common_ids)\<close>. With two snapshots that share no
  identifier the run ends in \<open>ZeroDivisionError\<close> and writes no report.
\<close>

theorem no_common_objects_raises:
  "common_ids [stix_object ''1'' ''malware'' ''t0''] [stix_object ''3'' ''malware'' ''t0''] = []
   \<and> modified_ids (example_env id [] []) [stix_object ''1'' ''malware'' ''t0'']
         [stix_object ''3'' ''malware'' ''t0''] = Inr []
   \<and> modified_percentage [] [] = Inl ZeroDivisionError
   \<and> snd (main (example_env id [stix_object ''1'' ''malware'' ''t0''] [stix_object ''3'' ''malware'' ''t0''])
         [ustr ''analyse_attack_markdown.py'', ustr ''enterprise-attack-16.1.json'',
          ustr ''enterprise-attack-17.0.json'']) = Inl ZeroDivisionError"
proof -
  have "common_ids [stix_object ''1'' ''malware'' ''t0''] [stix_object ''3'' ''malware'' ''t0''] = []"
    by (simp add: stix_object_def run_defs)
  moreover have "modified_ids (example_env id [] []) [stix_object ''1'' ''malware'' ''t0'']
         [stix_object ''3'' ''malware'' ''t0''] = Inr []"
    by (simp add: stix_object_def run_defs)
  moreover have "modified_percentage [] [] = Inl ZeroDivisionError"
    by (simp add: modified_percentage_def py_floordiv_def)
  moreover have "snd (main (example_env id [stix_object ''1'' ''malware'' ''t0'']
                             [stix_object ''3'' ''malware'' ''t0''])
         [ustr ''analyse_attack_markdown.py'', ustr ''enterprise-attack-16.1.json'',
          ustr ''enterprise-attack-17.0.json'']) = Inl ZeroDivisionError"
    by (simp add: main_def analyse_attack_versions_markdown_def Let_def stix_object_def run_defs)
  ultimately show ?thesis by blast
qed


section \<open>Objects without a type or an identifier\<close>

lemma count_types_missing:
  assumes "obj \<in> set objs" and "obj (ustr ''type'') = None"
  shows "count_types types objs = Inl (KeyError (JStr (ustr ''type'')))"
  using assms
proof (induction objs arbitrary: types)
  case Nil
  then show ?case by simp
next
  case (Cons x objs)
  show ?case
  proof (cases "x (ustr ''type'')")
    case None
    then show ?thesis by (simp add: obj_type_def)
  next
    case (Some t)
    with Cons.prems have "obj \<in> set objs" by auto
    from Cons.IH [OF this Cons.prems(2)] Some show ?thesis by (simp add: obj_type_def)
  qed
qed

lemma count_types_cases:
  "count_types types objs = Inl (KeyError (JStr (ustr ''type''))) \<or> (\<exists>r. count_types types objs = Inr r)"
proof (induction objs arbitrary: types)
  case Nil
  then show ?case by simp
next
  case (Cons x objs)
  then show ?case by (cases "x (ustr ''type'')") (simp_all add: obj_type_def)
qed

lemma render_report_missing_type:
  assumes "obj \<in> set data16 \<union> set data17" and "obj (ustr ''type'') = None"
  shows "render_report e version1 version2 data16 data17 = Inl (KeyError (JStr (ustr ''type'')))"
proof (cases "obj \<in> set data16")
  case True
  from count_types_missing [OF True assms(2)] show ?thesis by (simp add: render_report_def)
next
  case False
  with assms(1) have "obj \<in> set data17" by simp
  from count_types_missing [OF this assms(2)]
  have 17: "count_types Map.empty data17 = Inl (KeyError (JStr (ustr ''type'')))" .
  from count_types_cases [of Map.empty data16] show ?thesis
    by (auto simp: render_report_def 17)
qed

lemma index_step_no_id: "obj (ustr ''id'') = None \<Longrightarrow> index_step d obj = d"
  by (simp add: index_step_def)

lemma index_by_id_skips:
  "obj (ustr ''id'') = None \<Longrightarrow> index_by_id (xs @ obj # ys) = index_by_id (xs @ ys)"
  by (simp add: index_by_id_foldl index_step_no_id)

text \<open>
  Claim C10: when both files load and some object of either snapshot has no \<open>type\<close>
  key, the counting loop raises \<open>KeyError('type')\<close>; the run ends there, having printed
  its three progress lines and written no report. An object without an \<open>id\<close> is only
  left out of the index.
\<close>

theorem missing_type_is_fatal:
  "(load_objects e file1 = Inr data16 \<and> load_objects e file2 = Inr data17
      \<and> obj \<in> set data16 \<union> set data17 \<and> obj (ustr ''type'') = None
    \<longrightarrow> analyse_attack_versions_markdown e file1 file2 =
          ([ustr ''Reading MITRE ATT&CK files...'',
            concat [ustr ''  From: '', file1, ustr '' (version '', extract_version e file1, ustr '')''],
            concat [ustr ''  To: '', file2, ustr '' (version '', extract_version e file2, ustr '')'']],
           Inl (KeyError (JStr (ustr ''type'')))))
   \<and> (other (ustr ''id'') = None
        \<longrightarrow> index_by_id (xs @ other # ys) = index_by_id (xs @ ys))"
proof (intro conjI impI)
  assume a: "load_objects e file1 = Inr data16 \<and> load_objects e file2 = Inr data17
      \<and> obj \<in> set data16 \<union> set data17 \<and> obj (ustr ''type'') = None"
  then have "render_report e (extract_version e file1) (extract_version e file2) data16 data17
              = Inl (KeyError (JStr (ustr ''type'')))"
    using render_report_missing_type by blast
  with a show "analyse_attack_versions_markdown e file1 file2 =
          ([ustr ''Reading MITRE ATT&CK files...'',
            concat [ustr ''  From: '', file1, ustr '' (version '', extract_version e file1, ustr '')''],
            concat [ustr ''  To: '', file2, ustr '' (version '', extract_version e file2, ustr '')'']],
           Inl (KeyError (JStr (ustr ''type''))))"
    by (simp add: analyse_attack_versions_markdown_def Let_def)
next
  assume "other (ustr ''id'') = None"
  then show "index_by_id (xs @ other # ys) = index_by_id (xs @ ys)" by (rule index_by_id_skips)
qed


theorem missing_type_is_fatal_witness:
  "analyse_attack_versions_markdown
      (example_env id (from_snapshot @ [untyped_object ''9'']) to_snapshot)
      (ustr ''enterprise-attack-16.1.json'') (ustr ''enterprise-attack-17.0.json'') =
     ([ustr ''Reading MITRE ATT&CK files...'',
       ustr ''  From: enterprise-attack-16.1.json (version 16.1)'',
       ustr ''  To: enterprise-attack-17.0.json (version 17.0)''],
      Inl (KeyError (JStr (ustr ''type''))))
   \<and> index_by_id ([] @ anonymous_object ''tool'' # from_snapshot) = index_by_id ([] @ from_snapshot)"
proof -
  let ?e = "example_env id (from_snapshot @ [untyped_object ''9'']) to_snapshot"
  have h: "load_objects ?e (ustr ''enterprise-attack-16.1.json'') = Inr (from_snapshot @ [untyped_object ''9''])
      \<and> load_objects ?e (ustr ''enterprise-attack-17.0.json'') = Inr to_snapshot
      \<and> untyped_object ''9'' \<in> set (from_snapshot @ [untyped_object ''9'']) \<union> set to_snapshot
      \<and> untyped_object ''9'' (ustr ''type'') = None"
    by (simp add: example_env_def untyped_object_def ustr_def)
  have g: "anonymous_object ''tool'' (ustr ''id'') = None"
    by (simp add: anonymous_object_def ustr_def)
  have v1: "extract_version ?e (ustr ''enterprise-attack-16.1.json'') = ustr ''16.1''"
    by (simp add: extract_version_def version_re_def py_digit_def ustr_def)
  have v2: "extract_version ?e (ustr ''enterprise-attack-17.0.json'') = ustr ''17.0''"
    by (simp add: extract_version_def version_re_def py_digit_def ustr_def)
  from missing_type_is_fatal [of ?e "ustr ''enterprise-attack-16.1.json''"
      "from_snapshot @ [untyped_object ''9'']" "ustr ''enterprise-attack-17.0.json''" to_snapshot
      "untyped_object ''9''" "anonymous_object ''tool''" "[]" from_snapshot] h g
  have "analyse_attack_versions_markdown ?e
      (ustr ''enterprise-attack-16.1.json'') (ustr ''enterprise-attack-17.0.json'') =
     ([ustr ''Reading MITRE ATT&CK files...'',
       concat [ustr ''  From: '', ustr ''enterprise-attack-16.1.json'', ustr '' (version '',
               ustr ''16.1'', ustr '')''],
       concat [ustr ''  To: '', ustr ''enterprise-attack-17.0.json'', ustr '' (version '',
               ustr ''17.0'', ustr '')'']],
      Inl (KeyError (JStr (ustr ''type''))))
   \<and> index_by_id ([] @ anonymous_object ''tool'' # from_snapshot) = index_by_id ([] @ from_snapshot)"
    unfolding v1 [symmetric] v2 [symmetric] by blast
  then show ?thesis by (simp add: ustr_def)
qed


section \<open>The command line\<close>

text \<open>
  Claim C6 as stated fails in its last part: a wrong argument count and a missing file
  both end in \<open>sys.exit(1)\<close>, so the two statuses are the same.
\<close>

theorem same_exit_status_counterexample:
  "exit_status (main empty_disk_env [ustr ''analyse_attack_markdown.py'']) = 1
   \<and> exit_status (main empty_disk_env [ustr ''analyse_attack_markdown.py'',
         ustr ''enterprise-attack-16.1.json'', ustr ''enterprise-attack-17.0.json'']) = 1"
  by (simp add: main_def empty_disk_env_def)

text \<open>
  Claim C6, amended: with an argument count other than two the script prints its two
  usage lines and exits with status 1; with two arguments of which one names no
  existing path it prints one error line naming the first missing path and exits with
  status 1 as well, before anything is read.
\<close>

theorem main_rejects_bad_invocation:
  "(length argv \<noteq> 3 \<longrightarrow>
      main e argv =
        ([ustr ''Usage: python analyse_attack_markdown.py <from_version.json> <to_version.json>'',
          ustr ''Example: python analyse_attack_markdown.py enterprise-attack-16.1.json enterprise-attack-17.0.json''],
         Inl (SystemExit 1))
      \<and> exit_status (main e argv) = 1)
   \<and> (argv = [script, file1, file2] \<and> (\<not> path_exists e file1 \<or> \<not> path_exists e file2) \<longrightarrow>
      main e argv =
        ([concat [ustr ''Error: File '', [39],
                  (if \<not> path_exists e file1 then file1 else file2), [39], ustr '' not found'']],
         Inl (SystemExit 1))
      \<and> exit_status (main e argv) = 1)"
proof -
  have usage: "main e argv =
        ([ustr ''Usage: python analyse_attack_markdown.py <from_version.json> <to_version.json>'',
          ustr ''Example: python analyse_attack_markdown.py enterprise-attack-16.1.json enterprise-attack-17.0.json''],
         Inl (SystemExit 1))" if "length argv \<noteq> 3"
    using that by (auto simp: main_def split: list.splits)
  have missing: "main e argv =
        ([concat [ustr ''Error: File '', [39],
                  (if \<not> path_exists e file1 then file1 else file2), [39], ustr '' not found'']],
         Inl (SystemExit 1))"
    if "argv = [script, file1, file2] \<and> (\<not> path_exists e file1 \<or> \<not> path_exists e file2)"
    using that by (auto simp: main_def)
  show ?thesis using usage missing by (metis exit_status.simps(1))
qed

theorem main_rejects_bad_invocation_witness:
  "exit_status (main empty_disk_env [ustr ''analyse_attack_markdown.py'', ustr ''a.json'']) = 1
   \<and> main empty_disk_env [ustr ''analyse_attack_markdown.py'', ustr ''a.json'', ustr ''b.json''] =
       ([concat [ustr ''Error: File '', [39], ustr ''a.json'', [39], ustr '' not found'']],
        Inl (SystemExit 1))"
proof -
  have h1: "length [ustr ''analyse_attack_markdown.py'', ustr ''a.json''] \<noteq> 3" by simp
  have h2: "[ustr ''analyse_attack_markdown.py'', ustr ''a.json'', ustr ''b.json'']
              = [ustr ''analyse_attack_markdown.py'', ustr ''a.json'', ustr ''b.json'']
            \<and> (\<not> path_exists empty_disk_env (ustr ''a.json'')
                \<or> \<not> path_exists empty_disk_env (ustr ''b.json''))"
    by (simp add: empty_disk_env_def)
  from main_rejects_bad_invocation [of "[ustr ''analyse_attack_markdown.py'', ustr ''a.json'']"
      empty_disk_env] h1
  have a: "exit_status (main empty_disk_env [ustr ''analyse_attack_markdown.py'', ustr ''a.json'']) = 1"
    by blast
  from main_rejects_bad_invocation [of
      "[ustr ''analyse_attack_markdown.py'', ustr ''a.json'', ustr ''b.json'']"
      empty_disk_env "ustr ''analyse_attack_markdown.py''" "ustr ''a.json''" "ustr ''b.json''"] h2
  have b: "main empty_disk_env [ustr ''analyse_attack_markdown.py'', ustr ''a.json'', ustr ''b.json''] =
       ([concat [ustr ''Error: File '', [39], ustr ''a.json'', [39], ustr '' not found'']],
        Inl (SystemExit 1))"
    by (simp add: empty_disk_env_def)
  from a b show ?thesis by blast
qed


section \<open>Grouping by type\<close>













section \<open>Cleaning a description\<close>

lemma greedy_first:
  "0 < n \<Longrightarrow> k (drop n s) = Some (gs, r) \<Longrightarrow> greedy k s n = Some (take n s # gs, r)"
  by (cases n) simp_all

lemma match_link:
  assumes "t \<noteq> []" "93 \<notin> set t" "u \<noteq> []" "41 \<notin> set u"
  shows "match_items link_re ([91] @ t @ [93, 40] @ u @ [41] @ s)
           = Some ([[91], t, [93], [40], u, [41]], s)"
proof -
  have tw_u: "takeWhile (\<lambda>c. c \<noteq> 41) (u @ 41 # s) = u"
    using assms(4) by (auto simp: takeWhile_tail)
  have m_u: "match_items [Many1 (\<lambda>c. c \<noteq> 41), One (\<lambda>c. c = 41)] (u @ 41 # s)
               = Some ([u, [41]], s)"
    using assms(3) tw_u by (simp add: greedy_first)
  have tw_t: "takeWhile (\<lambda>c. c \<noteq> 93) (t @ 93 # 40 # u @ 41 # s) = t"
    using assms(2) by (auto simp: takeWhile_tail)
  have "match_items [Many1 (\<lambda>c. c \<noteq> 93), One (\<lambda>c. c = 93), One (\<lambda>c. c = 40),
                     Many1 (\<lambda>c. c \<noteq> 41), One (\<lambda>c. c = 41)] (t @ 93 # 40 # u @ 41 # s)
          = Some ([t, [93], [40], u, [41]], s)"
    using assms(1) tw_t m_u by (simp add: greedy_first)
  then show ?thesis by (simp add: link_re_def)
qed

lemma no_link_here: "c \<noteq> 91 \<Longrightarrow> match_items link_re (c # cs) = None"
  by (simp add: link_re_def)

lemma re_sub_no_bracket:
  "91 \<notin> set p \<Longrightarrow> re_sub link_re repl (p @ c # cs) = p @ re_sub link_re repl (c # cs)"
  by (induction p) (simp_all add: no_link_here)

lemma re_sub_link:
  assumes "91 \<notin> set p" "t \<noteq> []" "93 \<notin> set t" "u \<noteq> []" "41 \<notin> set u"
  shows "re_sub link_re group1 (p @ [91] @ t @ [93, 40] @ u @ [41] @ s)
           = p @ t @ re_sub link_re group1 s"
proof -
  have "re_sub link_re group1 (91 # t @ 93 # 40 # u @ 41 # s) = t @ re_sub link_re group1 s"
    using match_link [OF assms(2-5), of s] by (simp add: group1_def)
  then show ?thesis using re_sub_no_bracket [OF assms(1), of group1 91] by simp
qed

lemma split_ws_words:
  "list_all (\<lambda>c. \<not> is_space c) w \<Longrightarrow> list_all spaceless (split_ws w s)"
  by (induction s arbitrary: w) (auto simp: spaceless_def)

lemma py_split_words: "list_all spaceless (py_split s)"
  by (simp add: py_split_def split_ws_words)

lemma concat_split_ws: "concat (split_ws w s) = w @ filter (\<lambda>c. \<not> is_space c) s"
  by (induction s arbitrary: w) auto

lemma concat_py_split: "concat (py_split s) = filter (\<lambda>c. \<not> is_space c) s"
  by (simp add: py_split_def concat_split_ws)

lemma split_ws_word:
  "list_all (\<lambda>c. \<not> is_space c) a \<Longrightarrow> split_ws w (a @ s) = split_ws (w @ a) s"
  by (induction a arbitrary: w) auto

lemma split_ws_spaces:
  "list_all is_space g \<Longrightarrow> split_ws [] (g @ s) = split_ws [] s"
  by (induction g) auto

lemma py_split_run:
  assumes "spaceless a" "g \<noteq> []" "list_all is_space g"
  shows "py_split (a @ g @ s) = a # py_split s"
proof -
  from assms(2) obtain c g' where g: "g = c # g'" by (cases g) auto
  with assms(3) have c: "is_space c" and g': "list_all is_space g'" by auto
  have "split_ws [] (a @ g @ s) = split_ws a (c # g' @ s)"
    using assms(1) split_ws_word [of a "[]" "g @ s"] g by (simp add: spaceless_def)
  also have "\<dots> = a # split_ws [] (g' @ s)"
    using assms(1) c by (simp add: spaceless_def)
  also have "\<dots> = a # split_ws [] s" using g' by (simp add: split_ws_spaces)
  finally show ?thesis by (simp add: py_split_def)
qed

lemma py_split_last_word: "spaceless a \<Longrightarrow> py_split a = [a]"
  using split_ws_word [of a "[]" "[]"] by (simp add: py_split_def spaceless_def)

lemma set_py_join: "set (py_join sep ws) \<subseteq> set sep \<union> \<Union> (set ` set ws)"
  by (induction sep ws rule: py_join.induct) auto

lemma no_newline_joined: "10 \<notin> set (py_join [32] (py_split s))"
proof
  assume "10 \<in> set (py_join [32] (py_split s))"
  with set_py_join [of "[32]" "py_split s"] obtain w where
    w: "w \<in> set (py_split s)" "10 \<in> set w" by auto
  from py_split_words [of s] w(1) have "list_all (\<lambda>c. \<not> is_space c) w"
    by (auto simp: list_all_iff spaceless_def)
  with w(2) have "\<not> is_space 10" by (auto simp: list_all_iff)
  then show False by (simp add: is_space_def)
qed

lemma py_split_join:
  "list_all spaceless ws \<Longrightarrow> py_split (py_join [32] ws) = ws"
proof (induction "[32::nat]" ws rule: py_join.induct)
  case 1
  then show ?case by (simp add: py_split_def)
next
  case (2 w)
  then show ?case by (simp add: py_split_last_word)
next
  case (3 w v ws)
  have sp: "list_all is_space [32]" by (simp add: is_space_def)
  from 3 have "py_split (w @ [32] @ py_join [32] (v # ws)) = w # py_split (py_join [32] (v # ws))"
    by (intro py_split_run) (simp_all add: is_space_def)
  with 3 show ?case by simp
qed

lemma replace_newline: "replace_char 10 [32] x = map (\<lambda>c. if c = 10 then 32 else c) x"
  by (induction x) (simp_all add: replace_char_def)

lemma describe_truthy:
  assumes "obj (ustr ''description'') = Some (JStr d)" "d \<noteq> []"
  shows "describe links dflt obj = Inr (tidy_description links (replace_all replacements d))"
  using assms by (simp add: describe_def)

lemma listed_descriptions:
  "numbered_lines (render_report (example_env id [] []) (ustr ''16.1'') (ustr ''17.0'')
       [stix_object ''1'' ''malware'' ''t0''] linked_snapshot)
     = [ustr ''1. **T** - See [here](http://x) for more'',
        ustr ''1. **G** - See here for more'',
        ustr ''1. **S** - See here for more'',
        ustr ''1. **U** - See here for more'',
        ustr ''1. **C** - See here for more'']"
  by (simp add: numbered_lines_def linked_snapshot_def stix_object_def described_object_def run_defs)

lemma re_sub_skip:
  "no_match_before p rest \<Longrightarrow> re_sub link_re repl (p @ rest) = p @ re_sub link_re repl rest"
proof (induction p)
  case Nil
  then show ?case by simp
next
  case (Cons c p)
  from Cons.prems have all: "\<forall>k < Suc (length p). match_items link_re (drop k (c # p) @ rest) = None"
    by (simp add: no_match_before_def list_all_iff del: upt_Suc)
  then have here: "match_items link_re (c # p @ rest) = None" by fastforce
  have "match_items link_re (drop k p @ rest) = None" if "k < length p" for k
    using all that by (metis Suc_less_eq drop_Suc_Cons)
  then have "no_match_before p rest"
    by (simp add: no_match_before_def list_all_iff del: upt_Suc)
  from Cons.IH [OF this] here show ?case by simp
qed

lemma re_sub_link_after:
  assumes "no_match_before p ([91] @ t @ [93, 40] @ u @ [41] @ s)"
    and "t \<noteq> []" "93 \<notin> set t" "u \<noteq> []" "41 \<notin> set u"
  shows "re_sub link_re group1 (p @ [91] @ t @ [93, 40] @ u @ [41] @ s)
           = p @ t @ re_sub link_re group1 s"
proof -
  have "re_sub link_re group1 (91 # t @ 93 # 40 # u @ 41 # s) = t @ re_sub link_re group1 s"
    using match_link [OF assms(2-5), of s] by (simp add: group1_def)
  then show ?thesis using re_sub_skip [OF assms(1), of group1] by simp
qed

lemma split_leading_spaces: "list_all is_space g \<Longrightarrow> py_split (g @ x) = py_split x"
  by (simp add: py_split_def split_ws_spaces)

lemma tidy_outer_spaces: "tidy_description True (ustr ''  a   b  '') = ustr ''a b''"
  by (simp add: tidy_description_def link_re_def group1_def py_split_def is_space_def
      replace_char_def ustr_def)

text \<open>
  Claim C7 as stated fails where it says that each link is rewritten to its text: in
  \<open>a [b [c](d) e\<close> the match that starts at the first \<open>[\<close> takes \<open>b [c\<close> as its
  text, so a block that removes links gives \<open>a b [c e\<close> and not \<open>a [b c e\<close>.
\<close>

theorem swallowed_link_counterexample:
  "describe True (ustr ''Malware family.'')
      (described_object ''4'' ''malware'' ''S'' ''a [b [c](d) e'')
     = Inr (ustr ''a b [c e'')
   \<and> ustr ''a b [c e'' \<noteq> ustr ''a [b c e''"
  by (simp add: described_object_def run_defs)

text \<open>
  Claim C7, amended: the blocks of the threat actors, malware, tools and campaigns
  (\<open>links\<close> true) clean a non-empty description by \<open>clean_text\<close>, then turn each newline
  into a space, replace every match of the pattern \<open>\[([^\]]+)\]\([^\)]+\)\<close>, found from
  left to right without overlap, by its bracketed text, and join the words of the result
  with single spaces; the block of the attack patterns (\<open>links\<close> false) does the same
  without the link rewrite. A link \<open>[text](url)\<close> whose \<open>text\<close> is not empty and has no
  \<open>]\<close> and whose \<open>url\<close> is not empty and has no \<open>)\<close> is rewritten to \<open>text\<close> when no
  match of the pattern starts before it in the text still to be read, in particular when
  no \<open>[\<close> precedes it there. The words are the maximal runs without whitespace: a
  whitespace run between two words becomes one space, whitespace before the first and
  after the last word is dropped, and no newline is left. The description
  \<open>See [here](http://x) for more\<close> becomes \<open>See here for more\<close> in the four blocks and
  is left as it is among the attack patterns.
\<close>

theorem description_cleaning:
  "(obj (ustr ''description'') = Some (JStr d) \<and> d \<noteq> [] \<longrightarrow>
      describe True dflt obj =
        Inr (py_join [32] (py_split (re_sub link_re group1
               (map (\<lambda>c. if c = 10 then 32 else c) (replace_all replacements d)))))
      \<and> describe False dflt obj =
        Inr (py_join [32] (py_split
               (map (\<lambda>c. if c = 10 then 32 else c) (replace_all replacements d)))))
   \<and> (91 \<notin> set p \<and> t \<noteq> [] \<and> 93 \<notin> set t \<and> u \<noteq> [] \<and> 41 \<notin> set u \<longrightarrow>
        re_sub link_re group1 (p @ [91] @ t @ [93, 40] @ u @ [41] @ s)
          = p @ t @ re_sub link_re group1 s)
   \<and> (no_match_before q ([91] @ t @ [93, 40] @ u @ [41] @ s)
        \<and> t \<noteq> [] \<and> 93 \<notin> set t \<and> u \<noteq> [] \<and> 41 \<notin> set u \<longrightarrow>
        re_sub link_re group1 (q @ [91] @ t @ [93, 40] @ u @ [41] @ s)
          = q @ t @ re_sub link_re group1 s)
   \<and> (list_all is_space g \<longrightarrow> py_split (g @ x) = py_split x)
   \<and> tidy_description True (ustr ''  a   b  '') = ustr ''a b''
   \<and> list_all spaceless (py_split x)
   \<and> concat (py_split x) = filter (\<lambda>c. \<not> is_space c) x
   \<and> (spaceless a \<and> g \<noteq> [] \<and> list_all is_space g \<longrightarrow> py_split (a @ g @ x) = a # py_split x)
   \<and> 10 \<notin> set (py_join [32] (py_split x))
   \<and> py_split (py_join [32] (py_split x)) = py_split x
   \<and> tidy_description True (ustr ''See [here](http://x) for more'') = ustr ''See here for more''
   \<and> tidy_description False (ustr ''See [here](http://x) for more'')
       = ustr ''See [here](http://x) for more''
   \<and> numbered_lines (render_report (example_env id [] []) (ustr ''16.1'') (ustr ''17.0'')
         [stix_object ''1'' ''malware'' ''t0''] linked_snapshot)
       = [ustr ''1. **T** - See [here](http://x) for more'',
          ustr ''1. **G** - See here for more'',
          ustr ''1. **S** - See here for more'',
          ustr ''1. **U** - See here for more'',
          ustr ''1. **C** - See here for more'']"
proof -
  have A: "describe True dflt obj =
        Inr (py_join [32] (py_split (re_sub link_re group1
               (map (\<lambda>c. if c = 10 then 32 else c) (replace_all replacements d)))))
      \<and> describe False dflt obj =
        Inr (py_join [32] (py_split
               (map (\<lambda>c. if c = 10 then 32 else c) (replace_all replacements d))))"
    if "obj (ustr ''description'') = Some (JStr d) \<and> d \<noteq> []"
    using that describe_truthy [of obj d]
    by (simp add: tidy_description_def replace_newline)
  have B: "re_sub link_re group1 (p @ [91] @ t @ [93, 40] @ u @ [41] @ s)
          = p @ t @ re_sub link_re group1 s"
    if "91 \<notin> set p \<and> t \<noteq> [] \<and> 93 \<notin> set t \<and> u \<noteq> [] \<and> 41 \<notin> set u"
    using that re_sub_link [of p t u s] by blast
  have B2: "re_sub link_re group1 (q @ [91] @ t @ [93, 40] @ u @ [41] @ s)
          = q @ t @ re_sub link_re group1 s"
    if "no_match_before q ([91] @ t @ [93, 40] @ u @ [41] @ s)
        \<and> t \<noteq> [] \<and> 93 \<notin> set t \<and> u \<noteq> [] \<and> 41 \<notin> set u"
    using that re_sub_link_after [of q t u s] by blast
  have G: "py_split (g @ x) = py_split x" if "list_all is_space g"
    using that by (rule split_leading_spaces)
  have C: "py_split (a @ g @ x) = a # py_split x"
    if "spaceless a \<and> g \<noteq> [] \<and> list_all is_space g"
    using that py_split_run [of a g x] by blast
  have D: "py_split (py_join [32] (py_split x)) = py_split x"
    by (rule py_split_join [OF py_split_words])
  have E: "tidy_description True (ustr ''See [here](http://x) for more'') = ustr ''See here for more''"
    by (simp add: tidy_description_def link_re_def group1_def py_split_def is_space_def
        replace_char_def ustr_def)
  have F: "tidy_description False (ustr ''See [here](http://x) for more'')
       = ustr ''See [here](http://x) for more''"
    by (simp add: tidy_description_def py_split_def is_space_def replace_char_def ustr_def)
  from A B B2 G tidy_outer_spaces C D E F py_split_words [of x] concat_py_split [of x] no_newline_joined [of x]
    listed_descriptions
  show ?thesis by blast
qed

theorem description_cleaning_witness:
  "describe True (ustr ''Malware family.'')
      (described_object ''4'' ''malware'' ''S'' ''See [here](http://x) for more'')
     = Inr (ustr ''See here for more'')
   \<and> describe False (ustr ''Malware family.'')
      (described_object ''4'' ''malware'' ''S'' ''See [here](http://x) for more'')
     = Inr (ustr ''See [here](http://x) for more'')
   \<and> re_sub link_re group1 (ustr ''See '' @ [91] @ ustr ''here'' @ [93, 40] @ ustr ''http://x''
         @ [41] @ ustr '' for more'')
     = ustr ''See '' @ ustr ''here'' @ re_sub link_re group1 (ustr '' for more'')
   \<and> re_sub link_re group1 (ustr ''see [1] and '' @ [91] @ ustr ''here'' @ [93, 40]
         @ ustr ''http://x'' @ [41] @ ustr '' for more'')
     = ustr ''see [1] and '' @ ustr ''here'' @ re_sub link_re group1 (ustr '' for more'')
   \<and> py_split ([32, 10] @ ustr ''here'') = py_split (ustr ''here'')
   \<and> py_split (ustr ''See'' @ [32, 10] @ ustr ''here'') = ustr ''See'' # py_split (ustr ''here'')"
proof -
  let ?obj = "described_object ''4'' ''malware'' ''S'' ''See [here](http://x) for more''"
  let ?d = "ustr ''See [here](http://x) for more''"
  have h1: "?obj (ustr ''description'') = Some (JStr ?d) \<and> ?d \<noteq> []"
    by (simp add: described_object_def ustr_def)
  have h2: "91 \<notin> set (ustr ''See '') \<and> ustr ''here'' \<noteq> [] \<and> 93 \<notin> set (ustr ''here'')
            \<and> ustr ''http://x'' \<noteq> [] \<and> 41 \<notin> set (ustr ''http://x'')"
    by (simp add: ustr_def)
  have h3: "spaceless (ustr ''See'') \<and> [32, 10] \<noteq> [] \<and> list_all is_space [32, 10]"
    by (simp add: spaceless_def is_space_def ustr_def)
  have h4: "no_match_before (ustr ''see [1] and '')
              ([91] @ ustr ''here'' @ [93, 40] @ ustr ''http://x'' @ [41] @ ustr '' for more'')
            \<and> ustr ''here'' \<noteq> [] \<and> 93 \<notin> set (ustr ''here'')
            \<and> ustr ''http://x'' \<noteq> [] \<and> 41 \<notin> set (ustr ''http://x'')"
    by (simp add: no_match_before_def link_re_def ustr_def)
  have h5: "list_all is_space [32, 10]"
    by (simp add: is_space_def)
  note inst = description_cleaning [where obj = ?obj and d = ?d
      and dflt = "ustr ''Malware family.''" and p = "ustr ''See ''" and t = "ustr ''here''"
      and u = "ustr ''http://x''" and s = "ustr '' for more''" and q = "ustr ''see [1] and ''"
      and x = "ustr ''here''" and a = "ustr ''See''" and g = "[32, 10]"]
  have ev1: "py_join [32] (py_split (re_sub link_re group1
               (map (\<lambda>c. if c = 10 then 32 else c) (replace_all replacements ?d))))
             = ustr ''See here for more''"
    by (simp add: replacements_def replace_char_def link_re_def group1_def py_split_def
        is_space_def ustr_def)
  have ev2: "py_join [32] (py_split
               (map (\<lambda>c. if c = 10 then 32 else c) (replace_all replacements ?d)))
             = ?d"
    by (simp add: replacements_def replace_char_def py_split_def is_space_def ustr_def)
  from inst h1 have "describe True (ustr ''Malware family.'') ?obj = Inr (ustr ''See here for more'')
      \<and> describe False (ustr ''Malware family.'') ?obj = Inr ?d"
    unfolding ev1 ev2 by blast
  moreover from inst h2 have "re_sub link_re group1 (ustr ''See '' @ [91] @ ustr ''here'' @ [93, 40]
         @ ustr ''http://x'' @ [41] @ ustr '' for more'')
     = ustr ''See '' @ ustr ''here'' @ re_sub link_re group1 (ustr '' for more'')"
    by blast
  moreover from inst h4 have "re_sub link_re group1 (ustr ''see [1] and '' @ [91] @ ustr ''here''
         @ [93, 40] @ ustr ''http://x'' @ [41] @ ustr '' for more'')
     = ustr ''see [1] and '' @ ustr ''here'' @ re_sub link_re group1 (ustr '' for more'')"
    by blast
  moreover from inst h5 have "py_split ([32, 10] @ ustr ''here'') = py_split (ustr ''here'')"
    by blast
  moreover from inst h3 have "py_split (ustr ''See'' @ [32, 10] @ ustr ''here'')
      = ustr ''See'' # py_split (ustr ''here'')"
    by blast
  ultimately show ?thesis by blast
qed


section \<open>Version labels\<close>

lemma dot_no_digit: "\<not> py_digit e 46"
  by (simp add: py_digit_def)

lemma greedy_fails:
  "(\<And>k. 0 < k \<Longrightarrow> k \<le> n \<Longrightarrow> cont (drop k s) = None) \<Longrightarrow> greedy cont s n = None"
  by (induction n) simp_all

lemma take_takeWhile: "take (length (takeWhile P xs)) xs = takeWhile P xs"
  by (induction xs) auto

lemma drop_takeWhile: "drop (length (takeWhile P xs)) xs = dropWhile P xs"
  by (induction xs) auto

lemma match_digits:
  "match_items [Many1 P] s =
     (if takeWhile P s = [] then None else Some ([takeWhile P s], dropWhile P s))"
proof (cases "length (takeWhile P s)")
  case 0
  then show ?thesis by simp
next
  case (Suc n)
  then have "takeWhile P s \<noteq> []" by auto
  moreover have "take (Suc n) s = takeWhile P s" "drop (Suc n) s = dropWhile P s"
    using take_takeWhile [of P s] drop_takeWhile [of P s] Suc by simp_all
  ultimately show ?thesis using Suc by simp
qed

lemma match_dot_digits:
  "match_items [One (\<lambda>c. c = 46), Many1 P] s =
     (case s of
        [] \<Rightarrow> None
      | c # cs \<Rightarrow>
          if c = 46 \<and> takeWhile P cs \<noteq> [] then Some ([[46], takeWhile P cs], dropWhile P cs)
          else None)"
  using match_digits [of P] by (cases s) (simp_all del: match_items.simps(2)
      add: match_items.simps(2) [of "One (\<lambda>c. c = 46)"])

lemma dot_fails_in_run:
  assumes "k < length (takeWhile (py_digit e) s)"
  shows "match_items [One (\<lambda>c. c = 46), Many1 P] (drop k s) = None"
proof -
  let ?a = "takeWhile (py_digit e) s"
  from assms have len: "k < length s" using length_takeWhile_le [of "py_digit e" s] by simp
  from assms have "?a ! k \<in> set ?a" by simp
  then have "py_digit e (?a ! k)" by (rule set_takeWhileD [THEN conjunct2])
  then have "py_digit e (s ! k)" using takeWhile_nth [OF assms] by simp
  then have "s ! k \<noteq> 46" using dot_no_digit by metis
  moreover have "drop k s = s ! k # drop (Suc k) s" using Cons_nth_drop_Suc [OF len] by simp
  ultimately show ?thesis by (simp del: match_items.simps add: match_dot_digits)
qed

lemma match_version:
  "match_items (version_re e) s =
     (if takeWhile (py_digit e) s \<noteq> []
         \<and> (\<exists>cs. dropWhile (py_digit e) s = 46 # cs \<and> takeWhile (py_digit e) cs \<noteq> [])
      then Some ([takeWhile (py_digit e) s, [46],
                  takeWhile (py_digit e) (tl (dropWhile (py_digit e) s))],
                 dropWhile (py_digit e) (tl (dropWhile (py_digit e) s)))
      else None)"
proof (cases "length (takeWhile (py_digit e) s)")
  case 0
  then show ?thesis by (simp add: version_re_def)
next
  case (Suc n)
  let ?D = "py_digit e"
  let ?K = "match_items [One (\<lambda>c. c = 46), Many1 ?D]"
  have a: "takeWhile ?D s \<noteq> []" using Suc by auto
  have td: "take (Suc n) s = takeWhile ?D s" "drop (Suc n) s = dropWhile ?D s"
    using take_takeWhile [of ?D s] drop_takeWhile [of ?D s] Suc by simp_all
  have unfold: "match_items (version_re e) s = greedy ?K s (Suc n)"
    using Suc by (simp add: version_re_def)
  show ?thesis
  proof (cases "\<exists>cs. dropWhile ?D s = 46 # cs \<and> takeWhile ?D cs \<noteq> []")
    case True
    then obtain cs where cs: "dropWhile ?D s = 46 # cs" "takeWhile ?D cs \<noteq> []" by blast
    then have "?K (drop (Suc n) s) = Some ([[46], takeWhile ?D cs], dropWhile ?D cs)"
      by (simp del: match_items.simps add: td match_dot_digits)
    then have "greedy ?K s (Suc n) = Some ([takeWhile ?D s, [46], takeWhile ?D cs], dropWhile ?D cs)"
      by (simp add: td)
    with unfold a cs show ?thesis by simp
  next
    case False
    then have top: "?K (drop (Suc n) s) = None"
      by (auto simp del: match_items.simps simp add: td match_dot_digits split: list.splits)
    have "greedy ?K s n = None"
    proof (rule greedy_fails)
      fix k assume "0 < k" "k \<le> n"
      then have "k < length (takeWhile ?D s)" using Suc by simp
      then show "?K (drop k s) = None" by (rule dot_fails_in_run)
    qed
    with top have "greedy ?K s (Suc n) = None" by simp
    with unfold False show ?thesis by simp
  qed
qed

lemma match_version_sound:
  assumes "match_items (version_re e) s = Some (gs, r)"
  shows "s = concat gs @ r \<and> dotted_pair e (concat gs)"
proof -
  let ?D = "py_digit e"
  let ?a = "takeWhile ?D s"
  let ?rest = "dropWhile ?D s"
  from assms obtain cs where a: "?a \<noteq> []" and cs: "?rest = 46 # cs" "takeWhile ?D cs \<noteq> []"
    and gs: "gs = [?a, [46], takeWhile ?D cs]" and r: "r = dropWhile ?D cs"
    by (auto simp: match_version split: if_splits)
  have "s = ?a @ ?rest" by simp
  also have "\<dots> = ?a @ 46 # takeWhile ?D cs @ dropWhile ?D cs" using cs(1) by simp
  finally have s: "s = concat gs @ r" using gs r by simp
  have "list_all ?D ?a" "list_all ?D (takeWhile ?D cs)"
    by (auto simp: list_all_iff dest: set_takeWhileD)
  then have "dotted_pair e (concat gs)"
    unfolding dotted_pair_def gs using a cs(2) by (intro exI [of _ ?a] exI [of _ "takeWhile ?D cs"]) simp
  with s show ?thesis by blast
qed

lemma match_version_complete:
  assumes "dotted_pair e v"
  shows "\<exists>gs r'. match_items (version_re e) (v @ r) = Some (gs, r') \<and> length v \<le> length (concat gs)"
proof -
  let ?D = "py_digit e"
  from assms obtain a b where v: "v = a @ [46] @ b" and ne: "a \<noteq> []" "b \<noteq> []"
    and dig: "list_all ?D a" "list_all ?D b"
    by (auto simp: dotted_pair_def)
  have tw: "takeWhile ?D (v @ r) = a"
    using dig(1) dot_no_digit [of e] by (simp add: v list_all_iff takeWhile_append2)
  have dw: "dropWhile ?D (v @ r) = 46 # b @ r"
    using dig(1) dot_no_digit [of e] by (simp add: v list_all_iff dropWhile_append2)
  have twb: "takeWhile ?D (b @ r) = b @ takeWhile ?D r"
    using dig(2) by (simp add: list_all_iff takeWhile_append2)
  have "match_items (version_re e) (v @ r)
          = Some ([a, [46], b @ takeWhile ?D r], dropWhile ?D (b @ r))"
    using ne by (simp add: match_version tw dw twb)
  moreover have "length v \<le> length (concat [a, [46], b @ takeWhile ?D r])"
    by (simp add: v)
  ultimately show ?thesis by blast
qed

lemma re_search_none:
  "re_search its s = None \<Longrightarrow> s = p @ t \<Longrightarrow> match_items its t = None"
proof (induction s arbitrary: p)
  case Nil
  then show ?case by simp
next
  case (Cons c cs)
  from Cons.prems(1) have here: "match_items its (c # cs) = None" and rest: "re_search its cs = None"
    by (auto split: option.splits)
  show ?case
  proof (cases p)
    case Nil
    with Cons.prems(2) here show ?thesis by simp
  next
    case (Cons c' p')
    with Cons.prems(2) have "cs = p' @ t" by simp
    from Cons.IH [OF rest this] show ?thesis .
  qed
qed

lemma re_search_some:
  "re_search its s = Some gs \<Longrightarrow>
     \<exists>p t r. s = p @ t \<and> match_items its t = Some (gs, r)
       \<and> (\<forall>p' t'. s = p' @ t' \<and> length p' < length p \<longrightarrow> match_items its t' = None)"
proof (induction s)
  case Nil
  then obtain r where r: "match_items its [] = Some (gs, r)" by auto
  show ?case
    by (rule exI [of _ "[]"], rule exI [of _ "[]"], rule exI [of _ r]) (simp add: r)
next
  case (Cons c cs)
  show ?case
  proof (cases "match_items its (c # cs)")
    case (Some m)
    with Cons.prems obtain r where r: "match_items its (c # cs) = Some (gs, r)"
      by (cases m) auto
    show ?thesis
      by (rule exI [of _ "[]"], rule exI [of _ "c # cs"], rule exI [of _ r]) (simp add: r)
  next
    case None
    with Cons.prems have "re_search its cs = Some gs" by simp
    from Cons.IH [OF this] obtain p t r where
      ptr: "cs = p @ t" "match_items its t = Some (gs, r)"
        "\<forall>p' t'. cs = p' @ t' \<and> length p' < length p \<longrightarrow> match_items its t' = None"
      by blast
    have early: "match_items its t' = None"
      if "c # cs = p' @ t'" "length p' < length (c # p)" for p' t'
    proof (cases p')
      case Nil
      with that(1) None show ?thesis by simp
    next
      case (Cons c' q)
      with that have "cs = q @ t'" "length q < length p" by simp_all
      with ptr(3) show ?thesis by blast
    qed
    show ?thesis
    proof (rule exI [of _ "c # p"], rule exI [of _ t], rule exI [of _ r], intro conjI allI impI)
      show "c # cs = (c # p) @ t" using ptr(1) by simp
      show "match_items its t = Some (gs, r)" by (rule ptr(2))
      show "match_items its t' = None"
        if "c # cs = p' @ t' \<and> length p' < length (c # p)" for p' t'
        using that early by blast
    qed
  qed
qed

lemma unknown_no_dot: "46 \<notin> set (ustr ''unknown'')"
  by (simp add: ustr_def)

lemma dotted_pair_has_dot: "dotted_pair e v \<Longrightarrow> 46 \<in> set v"
  by (auto simp: dotted_pair_def)

lemma extract_version_unknown_iff:
  "extract_version e s = ustr ''unknown'' \<longleftrightarrow> \<not> (\<exists>p v r. s = p @ v @ r \<and> dotted_pair e v)"
proof
  assume u: "extract_version e s = ustr ''unknown''"
  have none: "re_search (version_re e) s = None"
  proof (cases "re_search (version_re e) s")
    case None
    then show ?thesis .
  next
    case (Some gs)
    from re_search_some [OF Some] obtain p t r where "match_items (version_re e) t = Some (gs, r)"
      by blast
    from match_version_sound [OF this] have "46 \<in> set (concat gs)"
      using dotted_pair_has_dot by blast
    moreover from u Some have "concat gs = ustr ''unknown''" by (simp add: extract_version_def)
    ultimately show ?thesis using unknown_no_dot by simp
  qed
  show "\<not> (\<exists>p v r. s = p @ v @ r \<and> dotted_pair e v)"
  proof
    assume "\<exists>p v r. s = p @ v @ r \<and> dotted_pair e v"
    then obtain p v r where s: "s = p @ (v @ r)" and d: "dotted_pair e v" by auto
    from re_search_none [OF none s] match_version_complete [OF d, of r] show False by auto
  qed
next
  assume no: "\<not> (\<exists>p v r. s = p @ v @ r \<and> dotted_pair e v)"
  have "re_search (version_re e) s = None"
  proof (cases "re_search (version_re e) s")
    case None
    then show ?thesis .
  next
    case (Some gs)
    from re_search_some [OF Some] obtain p t r where
      "s = p @ t" "match_items (version_re e) t = Some (gs, r)" by blast
    with match_version_sound [of e t gs r] have "s = p @ concat gs @ r \<and> dotted_pair e (concat gs)"
      by simp
    with no show ?thesis by blast
  qed
  then show "extract_version e s = ustr ''unknown''" by (simp add: extract_version_def)
qed

lemma extract_version_first:
  assumes "extract_version e s \<noteq> ustr ''unknown''"
  shows "\<exists>p r. s = p @ extract_version e s @ r \<and> dotted_pair e (extract_version e s)
           \<and> (\<forall>p' v' r'. s = p' @ v' @ r' \<and> dotted_pair e v' \<longrightarrow>
                 length p \<le> length p'
                 \<and> (length p' = length p \<longrightarrow> length v' \<le> length (extract_version e s)))"
proof -
  from assms obtain gs where gs: "re_search (version_re e) s = Some gs"
    and v: "extract_version e s = concat gs"
    by (cases "re_search (version_re e) s") (auto simp: extract_version_def)
  from re_search_some [OF gs] obtain p t r where
    ptr: "s = p @ t" "match_items (version_re e) t = Some (gs, r)"
      "\<forall>p' t'. s = p' @ t' \<and> length p' < length p \<longrightarrow> match_items (version_re e) t' = None"
    by blast
  from match_version_sound [OF ptr(2)] have t: "t = concat gs @ r" and d: "dotted_pair e (concat gs)"
    by simp_all
  have first: "length p \<le> length p' \<and> (length p' = length p \<longrightarrow> length v' \<le> length (concat gs))"
    if "s = p' @ v' @ r' \<and> dotted_pair e v'" for p' v' r'
  proof -
    from that have s': "s = p' @ (v' @ r')" and d': "dotted_pair e v'" by simp_all
    from match_version_complete [OF d', of r'] obtain gs' r'' where
      m: "match_items (version_re e) (v' @ r') = Some (gs', r'')" "length v' \<le> length (concat gs')"
      by blast
    have le: "length p \<le> length p'"
    proof (rule ccontr)
      assume "\<not> length p \<le> length p'"
      then have "length p' < length p" by simp
      with ptr(3) s' have "match_items (version_re e) (v' @ r') = None" by blast
      with m(1) show False by simp
    qed
    moreover have "length v' \<le> length (concat gs)" if "length p' = length p"
    proof -
      from that s' ptr(1) have "v' @ r' = t" by (metis append_eq_append_conv)
      with m(1) ptr(2) have "gs' = gs" by simp
      with m(2) show ?thesis by simp
    qed
    ultimately show ?thesis by blast
  qed
  show ?thesis
    unfolding v
    by (rule exI [of _ p], rule exI [of _ r]) (use ptr(1) t d first in auto)
qed

lemma written_file_name:
  assumes "snd (analyse_attack_versions_markdown e file1 file2) = Inr (name, content)"
  shows "name = output_filename (extract_version e file1) (extract_version e file2)"
  using assms
  by (auto simp: analyse_attack_versions_markdown_def Let_def split: sum.splits)

lemma v16: "extract_version e (ustr ''enterprise-attack-16.1.json'') = ustr ''16.1''"
  by (simp add: extract_version_def version_re_def py_digit_def ustr_def)

lemma v17: "extract_version e (ustr ''enterprise-attack-17.0.json'') = ustr ''17.0''"
  by (simp add: extract_version_def version_re_def py_digit_def ustr_def)

lemma name_16_17:
  "output_filename (ustr ''16.1'') (ustr ''17.0'') = ustr ''mitre_attack_changes_16.1_to_17.0.md''"
  by (simp add: output_filename_def ustr_def)

lemma occ16: "occurrences (ustr ''16.1'') (ustr ''mitre_attack_changes_16.1_to_17.0.md'') = 1"
  by (simp add: ustr_def)

lemma occ17: "occurrences (ustr ''17.0'') (ustr ''mitre_attack_changes_16.1_to_17.0.md'') = 1"
  by (simp add: ustr_def)

lemma example_run_writes:
  "\<exists>name content.
     snd (analyse_attack_versions_markdown (example_env id from_snapshot to_snapshot)
           (ustr ''enterprise-attack-16.1.json'') (ustr ''enterprise-attack-17.0.json''))
       = Inr (name, content)"
  unfolding analyse_attack_versions_markdown_def Let_def v16 v17
  by (simp add: from_snapshot_def to_snapshot_def stix_object_def run_defs)

text \<open>
  Claim C9: the label is \<open>unknown\<close> exactly when the name contains no dotted pair of
  digits; otherwise it is a dotted pair of the name, none starts further left, and none
  starting at the same place is longer. The two example names give \<open>16.1\<close> and
  \<open>17.0\<close>; the file a run writes is named by \<open>output_filename\<close> from the two labels,
  and the name built from \<open>16.1\<close> and \<open>17.0\<close> contains each of them once.
\<close>

theorem version_labels:
  "(extract_version e s = ustr ''unknown'' \<longleftrightarrow> \<not> (\<exists>p v r. s = p @ v @ r \<and> dotted_pair e v))
   \<and> (extract_version e s \<noteq> ustr ''unknown'' \<longrightarrow>
        (\<exists>p r. s = p @ extract_version e s @ r \<and> dotted_pair e (extract_version e s)
           \<and> (\<forall>p' v' r'. s = p' @ v' @ r' \<and> dotted_pair e v' \<longrightarrow>
                 length p \<le> length p'
                 \<and> (length p' = length p \<longrightarrow> length v' \<le> length (extract_version e s)))))
   \<and> extract_version e (ustr ''enterprise-attack-16.1.json'') = ustr ''16.1''
   \<and> extract_version e (ustr ''enterprise-attack-17.0.json'') = ustr ''17.0''
   \<and> (snd (analyse_attack_versions_markdown e file1 file2) = Inr (name, content) \<longrightarrow>
        name = output_filename (extract_version e file1) (extract_version e file2))
   \<and> output_filename (ustr ''16.1'') (ustr ''17.0'') = ustr ''mitre_attack_changes_16.1_to_17.0.md''
   \<and> occurrences (ustr ''16.1'') (output_filename (ustr ''16.1'') (ustr ''17.0'')) = 1
   \<and> occurrences (ustr ''17.0'') (output_filename (ustr ''16.1'') (ustr ''17.0'')) = 1"
  using extract_version_unknown_iff [of e s] extract_version_first [of e s]
    v16 [of e] v17 [of e] written_file_name [of e file1 file2 name content]
    name_16_17 occ16 occ17
  by (simp only: name_16_17) blast

theorem version_labels_witness:
  "extract_version (example_env id from_snapshot to_snapshot) (ustr ''enterprise-attack-16.1.json'')
     \<noteq> ustr ''unknown''
   \<and> dotted_pair (example_env id from_snapshot to_snapshot) (ustr ''16.1'')
   \<and> (\<exists>content.
        snd (analyse_attack_versions_markdown (example_env id from_snapshot to_snapshot)
              (ustr ''enterprise-attack-16.1.json'') (ustr ''enterprise-attack-17.0.json''))
          = Inr (ustr ''mitre_attack_changes_16.1_to_17.0.md'', content))"
proof -
  let ?e = "example_env id from_snapshot to_snapshot"
  let ?f1 = "ustr ''enterprise-attack-16.1.json''"
  let ?f2 = "ustr ''enterprise-attack-17.0.json''"
  from example_run_writes obtain name content where
    run: "snd (analyse_attack_versions_markdown ?e ?f1 ?f2) = Inr (name, content)" by blast
  note inst = version_labels [of ?e ?f1 ?f1 ?f2 name content]
  have h1: "extract_version ?e ?f1 \<noteq> ustr ''unknown''"
    by (simp add: v16) (simp add: ustr_def)
  from inst h1 have "dotted_pair ?e (extract_version ?e ?f1)" by blast
  then have d: "dotted_pair ?e (ustr ''16.1'')" by (simp add: v16)
  from inst run have "name = output_filename (extract_version ?e ?f1) (extract_version ?e ?f2)"
    by blast
  then have "name = ustr ''mitre_attack_changes_16.1_to_17.0.md''"
    by (simp add: v16 v17 name_16_17)
  with run h1 d show ?thesis by blast
qed


end
